theory Spec2Isabelle
  imports Complex_Main "HOL-Library.Word"
begin

unbundle bit_operations_syntax

section \<open>Go data: strings, runes, fixed-point numbers\<close>

text \<open>
  A Go string is a sequence of bytes; \<open>len\<close> counts bytes. A rune is an \<open>int32\<close>.
  \<open>fixed.Int26_6\<close> is an \<open>int32\<close> holding a number in units of 1/64. Go's \<open>int\<close>
  (byte indices, face indices) is modelled as \<open>int\<close>: the indices built here are
  bounded by the length of a string, and the caller's index offset is only ever added.
  \<open>float64\<close> is the type variable \<open>'f\<close>: only its zero value, \<open>+\<close> and \<open>>\<close> are
  used, through the type classes, and no law of arithmetic is assumed for them unless
  a theorem says so in its sort constraint.
\<close>

type_synonym byte = "8 word"
type_synonym gostring = "byte list"
type_synonym rune = "32 word"
type_synonym Int26_6 = "32 word"

subsection \<open>unicode/utf8: DecodeRuneInString\<close>

text \<open>
  The decoder of Go's standard library, with its tables \<open>first\<close> and \<open>acceptRanges\<close>.
  It returns the rune and its width in bytes; an invalid or short encoding gives
  \<open>(RuneError, 1)\<close>, the empty string \<open>(RuneError, 0)\<close>.
\<close>

definition RuneError :: rune where
  "RuneError = 0xFFFD"

definition xx :: byte where "xx = 0xF1"
definition as :: byte where "as = 0xF0"
definition s1 :: byte where "s1 = 0x02"
definition s2 :: byte where "s2 = 0x13"
definition s3 :: byte where "s3 = 0x03"
definition s4 :: byte where "s4 = 0x23"
definition s5 :: byte where "s5 = 0x34"
definition s6 :: byte where "s6 = 0x04"
definition s7 :: byte where "s7 = 0x44"

definition locb :: byte where "locb = 0x80"
definition hicb :: byte where "hicb = 0xBF"

definition maskx :: byte where "maskx = 0x3F"
definition mask2 :: byte where "mask2 = 0x1F"
definition mask3 :: byte where "mask3 = 0x0F"
definition mask4 :: byte where "mask4 = 0x07"

definition first :: "byte \<Rightarrow> byte" where
  "first b =
     (if b < 0x80 then as
      else if b < 0xC2 then xx
      else if b < 0xE0 then s1
      else if b = 0xE0 then s2
      else if b < 0xED then s3
      else if b = 0xED then s4
      else if b < 0xF0 then s3
      else if b = 0xF0 then s5
      else if b < 0xF4 then s6
      else if b = 0xF4 then s7
      else xx)"

definition acceptRanges :: "nat \<Rightarrow> byte \<times> byte" where
  "acceptRanges k =
     (if k = 0 then (locb, hicb)
      else if k = 1 then (0xA0, hicb)
      else if k = 2 then (locb, 0x9F)
      else if k = 3 then (0x90, hicb)
      else if k = 4 then (locb, 0x8F)
      else (0, 0))"

text \<open>
  For a first byte of class \<open>as\<close> or \<open>xx\<close> the library computes the result without a
  branch, as \<open>rune(s[0]) &^ mask | RuneError & mask\<close> with \<open>mask\<close> all ones exactly
  when the class is \<open>xx\<close>; that is the conditional below.
\<close>

definition DecodeRuneInString :: "gostring \<Rightarrow> rune \<times> nat" where
  "DecodeRuneInString s =
     (let n = length s in
      if n < 1 then (RuneError, 0)
      else
        let b0 = s ! 0; x = first b0 in
        if x \<ge> as then ((if x = xx then RuneError else ucast b0), 1)
        else
          let sz = unat (x AND 7);
              lo = fst (acceptRanges (unat (drop_bit 4 x)));
              hi = snd (acceptRanges (unat (drop_bit 4 x)))
          in
          if n < sz then (RuneError, 1)
          else
            let b1 = s ! 1 in
            if b1 < lo \<or> hi < b1 then (RuneError, 1)
            else if sz \<le> 2 then
              (push_bit 6 (ucast (b0 AND mask2)) OR ucast (b1 AND maskx), 2)
            else
              let b2 = s ! 2 in
              if b2 < locb \<or> hicb < b2 then (RuneError, 1)
              else if sz \<le> 3 then
                (push_bit 12 (ucast (b0 AND mask3)) OR push_bit 6 (ucast (b1 AND maskx))
                   OR ucast (b2 AND maskx), 3)
              else
                let b3 = s ! 3 in
                if b3 < locb \<or> hicb < b3 then (RuneError, 1)
                else
                  (push_bit 18 (ucast (b0 AND mask4)) OR push_bit 12 (ucast (b1 AND maskx))
                     OR push_bit 6 (ucast (b2 AND maskx)) OR ucast (b3 AND maskx), 4))"

subsection \<open>The loop \<open>for i, r := range s\<close>\<close>

text \<open>
  Ranging over a string decodes one rune at a time and yields the byte index at which
  each rune starts; an invalid byte yields \<open>RuneError\<close> and advances by one byte, as
  \<open>DecodeRuneInString\<close> does. \<open>rangeString i s\<close> lists the pairs for the rest \<open>s\<close> of a
  string whose next byte has index \<open>i\<close>.
\<close>

function rangeString :: "int \<Rightarrow> gostring \<Rightarrow> (int \<times> rune) list" where
  "rangeString i s =
     (if s = [] then []
      else (i, fst (DecodeRuneInString s))
             # rangeString (i + int (snd (DecodeRuneInString s)))
                 (drop (snd (DecodeRuneInString s)) s))"
  by pat_completeness auto
termination
proof (relation "measure (\<lambda>(i, s). length s)")
  show "wf (measure (\<lambda>(i :: int, s :: gostring). length s))" by simp
next
  fix i :: int and s :: gostring
  assume ne: "s \<noteq> []"
  have cases: "first (s ! 0) = as \<or> first (s ! 0) = xx \<or> first (s ! 0) = s1
      \<or> first (s ! 0) = s2 \<or> first (s ! 0) = s3 \<or> first (s ! 0) = s4
      \<or> first (s ! 0) = s5 \<or> first (s ! 0) = s6 \<or> first (s ! 0) = s7"
    by (simp add: first_def)
  have "0 < snd (DecodeRuneInString s)"
  proof (cases "as \<le> first (s ! 0)")
    case True
    then show ?thesis using ne by (simp add: DecodeRuneInString_def Let_def)
  next
    case False
    with cases ne show ?thesis
      by (auto simp: DecodeRuneInString_def Let_def
          as_def xx_def s1_def s2_def s3_def s4_def s5_def s6_def s7_def)
  qed
  with ne show "((i + int (snd (DecodeRuneInString s)), drop (snd (DecodeRuneInString s)) s), (i, s))
      \<in> measure (\<lambda>(i, s). length s)"
    by (cases s) auto
qed

declare rangeString.simps [simp del]

section \<open>Face, Metrics, Glyph\<close>

text \<open>
  Modelled from the spec: the type \<open>Direction\<close> and its method \<open>isHorizontal\<close> are declared
  outside the files at hand; the spec gives the directions as left-to-right,
  top-to-bottom and others, and the code advances the x origin for a horizontal one.
\<close>

datatype Direction = DirectionLeftToRight | DirectionRightToLeft
  | DirectionTopToBottomAndLeftToRight | DirectionTopToBottomAndRightToLeft

fun isHorizontal :: "Direction \<Rightarrow> bool" where
  "isHorizontal DirectionLeftToRight = True"
| "isHorizontal DirectionRightToLeft = True"
| "isHorizontal _ = False"

record 'f Metrics =
  Height :: 'f
  HAscent :: 'f
  HDescent :: 'f
  Width :: 'f
  VAscent :: 'f
  VDescent :: 'f

record ('img, 'f) Glyph =
  StartIndexInBytes :: int
  EndIndexInBytes :: int
  Image :: "'img option"
  X :: 'f
  Y :: 'f

text \<open>
  \<open>Image\<close> is a pointer to an image: \<open>None\<close> is \<open>nil\<close>.
  The errors are the one explicit panic of the package and the two run-time panics of
  indexing and slicing.
\<close>

datatype error = CopiedByValue | IndexOutOfRange | SliceOutOfRange

text \<open>
  The interface \<open>Face\<close>, as a record of its methods. \<open>advance\<close>, \<open>hasGlyph\<close> and
  \<open>direction\<close> answer without an effect. \<open>Metrics\<close> and \<open>appendGlyphsForLine\<close> can
  panic (the identity check of \<open>StdFace\<close>), and \<open>appendGlyphsForLine\<close> fills the glyph
  image cache of the face: it takes and returns the store \<open>'s\<close> that holds the caches.
\<close>

record ('img, 'f, 's) Face =
  Metrics :: "error + 'f Metrics"
  advance :: "gostring \<Rightarrow> 'f"
  hasGlyph :: "rune \<Rightarrow> bool"
  appendGlyphsForLine ::
    "'s \<Rightarrow> ('img, 'f) Glyph list \<Rightarrow> gostring \<Rightarrow> int \<Rightarrow> 'f \<Rightarrow> 'f
       \<Rightarrow> error + (('img, 'f) Glyph list \<times> 's)"
  direction :: Direction

type_synonym ('img, 'f, 's) MultiFace = "('img, 'f, 's) Face list"

section \<open>MultiFace.splitText\<close>

record textChunk =
  textStartIndex :: int
  textEndIndex :: int
  faceIndex :: int

text \<open>
  The inner loop of \<open>splitText\<close>: the index of the first face that has the glyph,
  counted from \<open>i\<close>, or \<open>-1\<close>.
\<close>

fun firstFace :: "int \<Rightarrow> ('img, 'f, 's) MultiFace \<Rightarrow> rune \<Rightarrow> int" where
  "firstFace i [] r = -1"
| "firstFace i (f # fs) r = (if \<not> hasGlyph f r then firstFace (i + 1) fs r else i)"

text \<open>The body of the outer loop, for the rune \<open>r\<close> at byte index \<open>ri\<close>.\<close>

definition splitText_step ::
    "('img, 'f, 's) MultiFace \<Rightarrow> gostring \<Rightarrow> textChunk list \<Rightarrow> int \<times> rune \<Rightarrow> textChunk list" where
  "splitText_step m text chunks p =
     (let ri = fst p; r = snd p;
          l = int (snd (DecodeRuneInString (drop (nat ri) text)));
          fi = firstFace 0 m r
      in
      if length chunks > 0 \<and> faceIndex (last chunks) = fi then
        chunks[length chunks - 1 :=
          (last chunks)\<lparr>textEndIndex := textEndIndex (last chunks) + l\<rparr>]
      else
        let s = (if length chunks > 0 then textEndIndex (last chunks) else 0) in
        chunks @ [\<lparr>textStartIndex = s, textEndIndex = s + l, faceIndex = fi\<rparr>])"

definition splitText :: "('img, 'f, 's) MultiFace \<Rightarrow> gostring \<Rightarrow> textChunk list" where
  "splitText m text = foldl (splitText_step m text) [] (rangeString 0 text)"

text \<open>
  What the chunk claims say, as executable predicates. \<open>contiguous s cs e\<close>: the first
  chunk starts at \<open>s\<close>, each chunk is not empty and starts where the one before it ends,
  and the last one ends at \<open>e\<close>. \<open>chunkBytes\<close> lists the byte indices of a chunk.
  \<open>distinctAdjacent\<close>: no two neighbours carry the same face index.
\<close>

fun contiguous :: "int \<Rightarrow> textChunk list \<Rightarrow> int \<Rightarrow> bool" where
  "contiguous s [] e = (s = e)"
| "contiguous s (c # cs) e =
     (textStartIndex c = s \<and> textStartIndex c < textEndIndex c
        \<and> contiguous (textEndIndex c) cs e)"

definition chunkBytes :: "textChunk \<Rightarrow> int list" where
  "chunkBytes c = [textStartIndex c .. textEndIndex c - 1]"

fun distinctAdjacent :: "textChunk list \<Rightarrow> bool" where
  "distinctAdjacent [] = True"
| "distinctAdjacent [c] = True"
| "distinctAdjacent (c # d # cs) = (faceIndex c \<noteq> faceIndex d \<and> distinctAdjacent (d # cs))"

text \<open>A face index is in range when it is \<open>-1\<close> or an index of the list of faces.\<close>

definition faceIndexOK :: "('img, 'f, 's) MultiFace \<Rightarrow> textChunk \<Rightarrow> bool" where
  "faceIndexOK m c = (faceIndex c = - 1 \<or> (0 \<le> faceIndex c \<and> faceIndex c < int (length m)))"

section \<open>MultiFace: Metrics, advance, direction, appendGlyphsForLine\<close>

text \<open>A loop whose body can panic stops at the first panic.\<close>

fun foldlE :: "('a \<Rightarrow> 'b \<Rightarrow> error + 'a) \<Rightarrow> 'a \<Rightarrow> 'b list \<Rightarrow> error + 'a" where
  "foldlE g a [] = Inr a"
| "foldlE g a (x # xs) = (case g a x of Inl e \<Rightarrow> Inl e | Inr a' \<Rightarrow> foldlE g a' xs)"

text \<open>\<open>m[i]\<close> and \<open>line[a:b]\<close>, with Go's range checks.\<close>

definition index :: "'a list \<Rightarrow> int \<Rightarrow> error + 'a" where
  "index xs i = (if 0 \<le> i \<and> i < int (length xs) then Inr (xs ! nat i) else Inl IndexOutOfRange)"

definition slice :: "gostring \<Rightarrow> int \<Rightarrow> int \<Rightarrow> error + gostring" where
  "slice t a b =
     (if 0 \<le> a \<and> a \<le> b \<and> b \<le> int (length t)
      then Inr (take (nat (b - a)) (drop (nat a) t)) else Inl SliceOutOfRange)"

definition zeroMetrics :: "('f::zero) Metrics" where
  "zeroMetrics = \<lparr>Height = 0, HAscent = 0, HDescent = 0, Width = 0, VAscent = 0, VDescent = 0\<rparr>"

definition Metrics_step ::
    "('f::{zero,ord}) Metrics \<Rightarrow> ('img, 'f, 's) Face \<Rightarrow> error + 'f Metrics" where
  "Metrics_step mt f =
     (case Metrics f of
        Inl e \<Rightarrow> Inl e
      | Inr mt1 \<Rightarrow>
          let mt = (if Height mt1 > Height mt then mt\<lparr>Height := Height mt1\<rparr> else mt);
              mt = (if HAscent mt1 > HAscent mt then mt\<lparr>HAscent := HAscent mt1\<rparr> else mt);
              mt = (if HDescent mt1 > HDescent mt then mt\<lparr>HDescent := HDescent mt1\<rparr> else mt);
              mt = (if Width mt1 > Width mt then mt\<lparr>Width := Width mt1\<rparr> else mt);
              mt = (if VAscent mt1 > VAscent mt then mt\<lparr>VAscent := VAscent mt1\<rparr> else mt);
              mt = (if VDescent mt1 > VDescent mt then mt\<lparr>VDescent := VDescent mt1\<rparr> else mt)
          in Inr mt)"

definition MultiFace_Metrics :: "('img, 'f::{zero,ord}, 's) MultiFace \<Rightarrow> error + 'f Metrics" where
  "MultiFace_Metrics m = foldlE Metrics_step zeroMetrics m"

definition advance_step ::
    "('img, 'f::plus, 's) MultiFace \<Rightarrow> gostring \<Rightarrow> 'f \<Rightarrow> textChunk \<Rightarrow> error + 'f" where
  "advance_step m text a c =
     (if faceIndex c = -1 then Inr a
      else
        case index m (faceIndex c) of
          Inl e \<Rightarrow> Inl e
        | Inr f \<Rightarrow>
            (case slice text (textStartIndex c) (textEndIndex c) of
               Inl e \<Rightarrow> Inl e
             | Inr t \<Rightarrow> Inr (a + advance f t)))"

definition MultiFace_advance :: "('img, 'f::{zero,plus}, 's) MultiFace \<Rightarrow> gostring \<Rightarrow> error + 'f" where
  "MultiFace_advance m text = foldlE (advance_step m text) 0 (splitText m text)"

definition MultiFace_hasGlyph :: "('img, 'f, 's) MultiFace \<Rightarrow> rune \<Rightarrow> bool" where
  "MultiFace_hasGlyph m r = list_ex (\<lambda>f. hasGlyph f r) m"

definition MultiFace_direction :: "('img, 'f, 's) MultiFace \<Rightarrow> Direction" where
  "MultiFace_direction m = (if length m = 0 then DirectionLeftToRight else direction (m ! 0))"

text \<open>
  What the claims about \<open>advance\<close> and \<open>Metrics\<close> say, in their words. \<open>chunkAdvance\<close>: the
  advance that the chunk's face reports for the chunk's part of the text; \<open>advanceSum\<close>:
  the sum of these over the chunks that have a face, in chunk order, from zero.
  \<open>sourceMax\<close>: the greatest value of a field over the sources' metrics, and
  \<open>maxSourceMetrics\<close> the record of these; \<open>nonNegativeMetrics\<close>: the condition of the data
  model, that no field of a Metrics record is below zero. \<open>fieldMax\<close> is the greatest
  value among zero and a field of the sources' metrics.
\<close>

definition chunkText :: "gostring \<Rightarrow> textChunk \<Rightarrow> gostring" where
  "chunkText text c =
     take (nat (textEndIndex c - textStartIndex c)) (drop (nat (textStartIndex c)) text)"

definition chunkAdvance :: "('img, 'f, 's) MultiFace \<Rightarrow> gostring \<Rightarrow> textChunk \<Rightarrow> 'f" where
  "chunkAdvance m text c = advance (m ! nat (faceIndex c)) (chunkText text c)"

definition advanceSum :: "('img, 'f::{zero,plus}, 's) MultiFace \<Rightarrow> gostring \<Rightarrow> 'f" where
  "advanceSum m text =
     foldl (+) 0 (map (chunkAdvance m text) (filter (\<lambda>c. faceIndex c \<noteq> - 1) (splitText m text)))"

definition nonNegativeMetrics :: "('f::{linorder,zero}) Metrics \<Rightarrow> bool" where
  "nonNegativeMetrics mt =
     (0 \<le> Height mt \<and> 0 \<le> HAscent mt \<and> 0 \<le> HDescent mt \<and> 0 \<le> Width mt
        \<and> 0 \<le> VAscent mt \<and> 0 \<le> VDescent mt)"

definition sourceMax :: "('f Metrics \<Rightarrow> 'f::linorder) \<Rightarrow> 'f Metrics list \<Rightarrow> 'f" where
  "sourceMax fld ms = Max (set (map fld ms))"

definition maxSourceMetrics :: "('f::linorder) Metrics list \<Rightarrow> 'f Metrics" where
  "maxSourceMetrics ms =
     \<lparr>Height = sourceMax Height ms, HAscent = sourceMax HAscent ms,
      HDescent = sourceMax HDescent ms, Width = sourceMax Width ms,
      VAscent = sourceMax VAscent ms, VDescent = sourceMax VDescent ms\<rparr>"

definition fieldMax :: "('f Metrics \<Rightarrow> 'f::{linorder,zero}) \<Rightarrow> 'f Metrics list \<Rightarrow> 'f" where
  "fieldMax fld ms = Max (set (0 # map fld ms))"

definition maxMetrics :: "('f::{linorder,zero}) Metrics list \<Rightarrow> 'f Metrics" where
  "maxMetrics ms =
     \<lparr>Height = fieldMax Height ms, HAscent = fieldMax HAscent ms,
      HDescent = fieldMax HDescent ms, Width = fieldMax Width ms,
      VAscent = fieldMax VAscent ms, VDescent = fieldMax VDescent ms\<rparr>"

text \<open>
  The variables that the loop of \<open>MultiFace.appendGlyphsForLine\<close> updates, and the store
  that the faces update.
\<close>

record ('img, 'f, 's) appendState =
  asGlyphs :: "('img, 'f) Glyph list"
  asIndexOffset :: int
  asOriginX :: 'f
  asOriginY :: 'f
  asStore :: 's

definition appendGlyphs_step ::
    "('img, 'f::plus, 's) MultiFace \<Rightarrow> gostring \<Rightarrow> ('img, 'f, 's) appendState \<Rightarrow> textChunk
       \<Rightarrow> error + ('img, 'f, 's) appendState" where
  "appendGlyphs_step m line st c =
     (if faceIndex c = -1 then Inr st
      else
        case index m (faceIndex c) of
          Inl e \<Rightarrow> Inl e
        | Inr f \<Rightarrow>
            (case slice line (textStartIndex c) (textEndIndex c) of
               Inl e \<Rightarrow> Inl e
             | Inr t \<Rightarrow>
                 (case appendGlyphsForLine f (asStore st) (asGlyphs st) t (asIndexOffset st)
                         (asOriginX st) (asOriginY st) of
                    Inl e \<Rightarrow> Inl e
                  | Inr (glyphs, store) \<Rightarrow>
                      let a = advance f t in
                      Inr \<lparr>asGlyphs = glyphs,
                           asIndexOffset = asIndexOffset st + int (length t),
                           asOriginX =
                             (if isHorizontal (direction f) then asOriginX st + a else asOriginX st),
                           asOriginY =
                             (if isHorizontal (direction f) then asOriginY st else asOriginY st + a),
                           asStore = store\<rparr>)))"

definition MultiFace_appendGlyphsForLine ::
    "('img, 'f::plus, 's) MultiFace \<Rightarrow> 's \<Rightarrow> ('img, 'f) Glyph list \<Rightarrow> gostring \<Rightarrow> int \<Rightarrow> 'f \<Rightarrow> 'f
       \<Rightarrow> error + (('img, 'f) Glyph list \<times> 's)" where
  "MultiFace_appendGlyphsForLine m store glyphs line indexOffset originX originY =
     (case foldlE (appendGlyphs_step m line)
             \<lparr>asGlyphs = glyphs, asIndexOffset = indexOffset, asOriginX = originX,
              asOriginY = originY, asStore = store\<rparr>
             (splitText m line) of
        Inl e \<Rightarrow> Inl e
      | Inr st \<Rightarrow> Inr (asGlyphs st, asStore st))"

section \<open>StdFace\<close>

subsection \<open>Fixed-point points and rectangles, the font face\<close>

text \<open>
  \<open>fixed.Point26_6\<close> (fields \<open>X\<close>, \<open>Y\<close>) and \<open>fixed.Rectangle26_6\<close> (fields \<open>Min\<close>,
  \<open>Max\<close>); the field names carry a prefix here. \<open>Floor\<close> and \<open>Ceil\<close> are the methods of
  \<open>Int26_6\<close>: an arithmetic shift right by 6 bits, of \<open>x\<close> and of \<open>x + 0x3f\<close>, converted to
  \<open>int\<close>.
\<close>

record Point26_6 =
  PX :: Int26_6
  PY :: Int26_6

record Rectangle26_6 =
  RMin :: Point26_6
  RMax :: Point26_6

definition Floor :: "Int26_6 \<Rightarrow> int" where
  "Floor x = sint (signed_drop_bit 6 (x + 0x00))"

definition Ceil :: "Int26_6 \<Rightarrow> int" where
  "Ceil x = sint (signed_drop_bit 6 (x + 0x3f))"

text \<open>
  The \<open>font.Face\<close> that a \<open>StdFace\<close> wraps, behind \<open>faceWithCache\<close>, which answers as the
  wrapped face does: its methods are functions of their arguments.
\<close>

record fontMetrics =
  fmHeight :: Int26_6
  fmAscent :: Int26_6
  fmDescent :: Int26_6

record fontFace =
  Kern :: "rune \<Rightarrow> rune \<Rightarrow> Int26_6"
  GlyphBounds :: "rune \<Rightarrow> Rectangle26_6 \<times> Int26_6 \<times> bool"
  GlyphAdvance :: "rune \<Rightarrow> Int26_6 \<times> bool"
  fontFaceMetrics :: fontMetrics

text \<open>
  The helpers that \<open>StdFace\<close> calls and that are defined outside the files at hand, as
  parameters: \<open>adjustGranularity\<close> (of a coordinate and the face), the conversions
  between \<open>float64\<close> and \<open>Int26_6\<close> and from \<open>int\<close> to \<open>float64\<close>, \<open>font.MeasureString\<close>,
  and the drawing of a glyph: \<open>drawGlyph face r w h dot\<close> stands for the image that
  \<open>glyphImageImpl\<close> builds from an RGBA image of \<open>w\<close> by \<open>h\<close> pixels on which a
  \<open>font.Drawer\<close> at \<open>dot\<close> has drawn the rune; that image is never \<open>nil\<close>.
\<close>

record ('img, 'f) helpers =
  adjustGranularity :: "Int26_6 \<Rightarrow> fontFace \<Rightarrow> Int26_6"
  fixed26_6ToFloat64 :: "Int26_6 \<Rightarrow> 'f"
  float64ToFixed26_6 :: "'f \<Rightarrow> Int26_6"
  float64OfInt :: "int \<Rightarrow> 'f"
  MeasureString :: "fontFace \<Rightarrow> gostring \<Rightarrow> Int26_6"
  drawGlyph :: "fontFace \<Rightarrow> rune \<Rightarrow> int \<Rightarrow> int \<Rightarrow> Point26_6 \<Rightarrow> 'img"

subsection \<open>The glyph image cache\<close>

record stdFaceGlyphImageCacheKey =
  keyRune :: rune
  xoffset :: Int26_6

type_synonym 'img glyphImageCache = "stdFaceGlyphImageCacheKey \<rightharpoonup> 'img option"

text \<open>
  Modelled from the spec: \<open>glyphImageCache.getOrCreate\<close> is defined outside the files at
  hand. The spec: it returns the cached image for the key if present; otherwise it
  invokes the creation function once, stores the result under the key, and returns it.
  The cache belongs to its owner, whose address is the first argument. A stored \<open>nil\<close>
  image is the entry \<open>Some None\<close>.
\<close>

definition getOrCreate ::
    "'img glyphImageCache \<Rightarrow> nat \<Rightarrow> stdFaceGlyphImageCacheKey \<Rightarrow> (unit \<Rightarrow> 'img option)
       \<Rightarrow> 'img option \<times> 'img glyphImageCache" where
  "getOrCreate cache owner key create =
     (case cache key of
        Some img \<Rightarrow> (img, cache)
      | None \<Rightarrow> (let img = create () in (img, cache(key \<mapsto> img))))"

subsection \<open>The face and its methods\<close>

text \<open>
  A \<open>StdFace\<close> lives at an address; \<open>addr\<close> is the address it was created at
  (\<open>None\<close> is \<open>nil\<close>, the value of the field in a zero \<open>StdFace\<close>). Every method has
  the pointer receiver \<open>s *StdFace\<close>: here the address \<open>p\<close> and the value \<open>s\<close>
  stored there. A copy by value is the same record at another address. A method
  returns \<open>Inl\<close> when it panics; the two methods that write to the cache return the
  new value of the face as well.
\<close>

record 'img StdFace =
  stdf :: fontFace
  glyphImageCache :: "'img glyphImageCache"
  addr :: "nat option"

definition NewStdFace :: "nat \<Rightarrow> fontFace \<Rightarrow> 'img StdFace" where
  "NewStdFace p face = \<lparr>stdf = face, glyphImageCache = Map.empty, addr = Some p\<rparr>"

definition copyCheck :: "nat \<Rightarrow> 'img StdFace \<Rightarrow> error + unit" where
  "copyCheck p s = (if addr s \<noteq> Some p then Inl CopiedByValue else Inr ())"

definition StdFace_Metrics ::
    "('img, 'f::zero) helpers \<Rightarrow> nat \<Rightarrow> 'img StdFace \<Rightarrow> error + 'f Metrics" where
  "StdFace_Metrics h p s =
     (case copyCheck p s of
        Inl e \<Rightarrow> Inl e
      | Inr _ \<Rightarrow>
          let m = fontFaceMetrics (stdf s) in
          Inr (zeroMetrics\<lparr>Height := fixed26_6ToFloat64 h (fmHeight m),
                 HAscent := fixed26_6ToFloat64 h (fmAscent m),
                 HDescent := fixed26_6ToFloat64 h (fmDescent m)\<rparr>))"





text \<open>The vector path is a value of any type; the method returns the path it leaves.\<close>

definition StdFace_appendVectorPathForLine ::
    "nat \<Rightarrow> 'img StdFace \<Rightarrow> 'path \<Rightarrow> gostring \<Rightarrow> 'f \<Rightarrow> 'f \<Rightarrow> error + 'path" where
  "StdFace_appendVectorPathForLine p s path line originX originY = Inr path"

definition glyphImageImpl ::
    "('img, 'f) helpers \<Rightarrow> 'img StdFace \<Rightarrow> rune \<Rightarrow> Point26_6 \<Rightarrow> Rectangle26_6 \<Rightarrow> 'img option" where
  "glyphImageImpl h s r subpixelOffset glyphBounds =
     (let w = Ceil (PX (RMax glyphBounds) - PX (RMin glyphBounds));
          ht = Ceil (PY (RMax glyphBounds) - PY (RMin glyphBounds))
      in
      if w = 0 \<or> ht = 0 then None
      else
        Some (drawGlyph h (stdf s) r (w + 1) (ht + 1)
                \<lparr>PX = - PX (RMin glyphBounds) + PX subpixelOffset,
                 PY = - PY (RMin glyphBounds) + PY subpixelOffset\<rparr>))"

text \<open>The origin after the first two statements of \<open>glyphImage\<close>.\<close>

definition quantize :: "('img, 'f) helpers \<Rightarrow> 'img StdFace \<Rightarrow> Point26_6 \<Rightarrow> Point26_6" where
  "quantize h s origin =
     \<lparr>PX = adjustGranularity h (PX origin) (stdf s), PY = PY origin AND NOT ((push_bit 6 1) - 1)\<rparr>"

record 'img glyphImageResult =
  giImg :: "'img option"
  giImgX :: int
  giImgY :: int
  giAdvance :: Int26_6
  giFace :: "'img StdFace"

definition glyphImage ::
    "('img, 'f) helpers \<Rightarrow> nat \<Rightarrow> 'img StdFace \<Rightarrow> rune \<Rightarrow> Point26_6 \<Rightarrow> 'img glyphImageResult" where
  "glyphImage h p s r origin0 =
     (let origin = quantize h s origin0;
          b = fst (GlyphBounds (stdf s) r);
          a = fst (snd (GlyphBounds (stdf s) r));
          subpixelOffset =
            \<lparr>PX = (PX origin + PX (RMin b)) AND ((push_bit 6 1) - 1),
             PY = (PY origin + PY (RMin b)) AND ((push_bit 6 1) - 1)\<rparr>;
          key = \<lparr>keyRune = r, xoffset = PX subpixelOffset\<rparr>;
          res = getOrCreate (glyphImageCache s) p key (\<lambda>_. glyphImageImpl h s r subpixelOffset b);
          imgX = Floor (PX origin + PX (RMin b));
          imgY = Floor (PY origin + PY (RMin b))
      in \<lparr>giImg = fst res, giImgX = imgX, giImgY = imgY, giAdvance = a,
          giFace = s\<lparr>glyphImageCache := snd res\<rparr>\<rparr>)"

text \<open>The variables that the loop of \<open>StdFace.appendGlyphsForLine\<close> updates.\<close>

record ('img, 'f) lineState =
  lsGlyphs :: "('img, 'f) Glyph list"
  lsOrigin :: Point26_6
  lsPrevR :: rune
  lsFace :: "'img StdFace"

definition appendGlyph_step ::
    "('img, 'f) helpers \<Rightarrow> nat \<Rightarrow> gostring \<Rightarrow> int \<Rightarrow> ('img, 'f) lineState \<Rightarrow> int \<times> rune
       \<Rightarrow> ('img, 'f) lineState" where
  "appendGlyph_step h p line indexOffset st q =
     (let i = fst q; r = snd q;
          origin =
            (if 0 \<le>s lsPrevR st
             then (lsOrigin st)\<lparr>PX := PX (lsOrigin st) + Kern (stdf (lsFace st)) (lsPrevR st) r\<rparr>
             else lsOrigin st);
          g = glyphImage h p (lsFace st) r origin;
          glyphs =
            (if giImg g \<noteq> None then
               let size = int (snd (DecodeRuneInString (drop (nat i) line))) in
               lsGlyphs st @
                 [\<lparr>StartIndexInBytes = indexOffset + i,
                   EndIndexInBytes = indexOffset + i + size,
                   Image = giImg g,
                   X = float64OfInt h (giImgX g),
                   Y = float64OfInt h (giImgY g)\<rparr>]
             else lsGlyphs st)
      in \<lparr>lsGlyphs = glyphs, lsOrigin = origin\<lparr>PX := PX origin + giAdvance g\<rparr>, lsPrevR = r,
          lsFace = giFace g\<rparr>)"

definition StdFace_appendGlyphsForLine ::
    "('img, 'f) helpers \<Rightarrow> nat \<Rightarrow> 'img StdFace \<Rightarrow> ('img, 'f) Glyph list \<Rightarrow> gostring \<Rightarrow> int
       \<Rightarrow> 'f \<Rightarrow> 'f \<Rightarrow> error + (('img, 'f) Glyph list \<times> 'img StdFace)" where
  "StdFace_appendGlyphsForLine h p s glyphs line indexOffset originX originY =
     (case copyCheck p s of
        Inl e \<Rightarrow> Inl e
      | Inr _ \<Rightarrow>
          let st = foldl (appendGlyph_step h p line indexOffset)
                     \<lparr>lsGlyphs = glyphs,
                      lsOrigin = \<lparr>PX = float64ToFixed26_6 h originX, PY = float64ToFixed26_6 h originY\<rparr>,
                      lsPrevR = - 1, lsFace = s\<rparr>
                     (rangeString 0 line)
          in Inr (lsGlyphs st, lsFace st))"

text \<open>
  A rune has an empty ink box when the box has zero width or zero height. A cache
  holds no ink for such runes when every entry under such a rune is \<open>nil\<close>; that is so
  in a new face, and the loop above keeps it.
\<close>

definition emptyInk :: "fontFace \<Rightarrow> rune \<Rightarrow> bool" where
  "emptyInk face r =
     (let b = fst (GlyphBounds face r) in
      PX (RMax b) = PX (RMin b) \<or> PY (RMax b) = PY (RMin b))"

definition noInkCached :: "'img StdFace \<Rightarrow> bool" where
  "noInkCached s =
     (\<forall>key img. glyphImageCache s key = Some img \<and> emptyInk (stdf s) (keyRune key) \<longrightarrow> img = None)"

text \<open>
  The origin of a rune after the kerning statement of the loop, and the key under which
  \<open>glyphImage\<close> looks a rune up, for an origin.
\<close>

definition kernedOrigin :: "('img, 'f) lineState \<Rightarrow> rune \<Rightarrow> Point26_6" where
  "kernedOrigin st r =
     (if 0 \<le>s lsPrevR st
      then (lsOrigin st)\<lparr>PX := PX (lsOrigin st) + Kern (stdf (lsFace st)) (lsPrevR st) r\<rparr>
      else lsOrigin st)"

definition cacheKey ::
    "('img, 'f) helpers \<Rightarrow> 'img StdFace \<Rightarrow> rune \<Rightarrow> Point26_6 \<Rightarrow> stdFaceGlyphImageCacheKey" where
  "cacheKey h s r origin =
     \<lparr>keyRune = r,
      xoffset = (PX (quantize h s origin) + PX (RMin (fst (GlyphBounds (stdf s) r)))) AND 63\<rparr>"

text \<open>
  What the claim about byte ranges says: \<open>runeRange line a b\<close> holds when \<open>[a, b)\<close> is the
  byte range of one encoded rune of the line, as the range loop steps through it.
\<close>

definition runeRange :: "gostring \<Rightarrow> int \<Rightarrow> int \<Rightarrow> bool" where
  "runeRange line a b =
     list_ex (\<lambda>q. a = fst q \<and> b = fst q + int (snd (DecodeRuneInString (drop (nat (fst q)) line))))
       (rangeString 0 line)"

text \<open>
  \<open>newGlyphsOK line indexOffset old new\<close>: the list \<open>new\<close> is \<open>old\<close> with glyphs appended,
  each of which has, after the index offset is subtracted, the byte range of a rune.
\<close>

definition newGlyphsOK ::
    "gostring \<Rightarrow> int \<Rightarrow> ('img, 'f) Glyph list \<Rightarrow> ('img, 'f) Glyph list \<Rightarrow> bool" where
  "newGlyphsOK line indexOffset old new =
     (\<exists>added. new = old @ added
        \<and> (\<forall>g \<in> set added.
              runeRange line (StartIndexInBytes g - indexOffset) (EndIndexInBytes g - indexOffset)))"

text \<open>
  What the claim about runes without ink says of a whole call. \<open>runeAt line i\<close> is the
  rune that starts at byte \<open>i\<close>. \<open>penPositions face prevR x qs\<close> lists, for the runes \<open>qs\<close>
  of a line, the byte index of each rune and the x origin at which it is placed: the
  origin moves by the kerning before a rune and by the advance of the rune after it,
  for every rune alike. \<open>glyphAt\<close>: the glyph has the byte range of the rune at \<open>i\<close>,
  which has ink, and the x coordinate that the origin \<open>x\<close> gives it. \<open>placedGlyph\<close>: the
  glyph is the glyph of one of the runes of the line, at the pen position of that rune.
\<close>

definition runeAt :: "gostring \<Rightarrow> int \<Rightarrow> rune" where
  "runeAt line i = fst (DecodeRuneInString (drop (nat i) line))"

fun penPositions :: "fontFace \<Rightarrow> rune \<Rightarrow> Int26_6 \<Rightarrow> (int \<times> rune) list \<Rightarrow> (int \<times> Int26_6) list" where
  "penPositions face prevR x [] = []"
| "penPositions face prevR x (q # qs) =
     (let x' = (if 0 \<le>s prevR then x + Kern face prevR (snd q) else x) in
      (fst q, x') # penPositions face (snd q) (x' + fst (snd (GlyphBounds face (snd q)))) qs)"

definition glyphAt ::
    "('img, 'f) helpers \<Rightarrow> fontFace \<Rightarrow> gostring \<Rightarrow> int \<Rightarrow> ('img, 'f) Glyph \<Rightarrow> int \<Rightarrow> Int26_6
       \<Rightarrow> bool" where
  "glyphAt h face line indexOffset g i x =
     (StartIndexInBytes g = indexOffset + i
      \<and> EndIndexInBytes g = indexOffset + i + int (snd (DecodeRuneInString (drop (nat i) line)))
      \<and> \<not> emptyInk face (runeAt line i)
      \<and> X g = float64OfInt h
                 (Floor (adjustGranularity h x face
                           + PX (RMin (fst (GlyphBounds face (runeAt line i)))))))"

definition placedGlyph ::
    "('img, 'f) helpers \<Rightarrow> fontFace \<Rightarrow> gostring \<Rightarrow> int \<Rightarrow> Int26_6 \<Rightarrow> ('img, 'f) Glyph
       \<Rightarrow> bool" where
  "placedGlyph h face line indexOffset x0 g =
     list_ex (\<lambda>a. glyphAt h face line indexOffset g (fst a) (snd a))
       (penPositions face (- 1) x0 (rangeString 0 line))"

text \<open>
  A \<open>*StdFace\<close> as a \<open>Face\<close>: the store maps the addresses of the faces to their
  values, and \<open>appendGlyphsForLine\<close> works on the value at \<open>p\<close>. The font and the
  address field of a face never change, so the other methods read them from \<open>s\<close>.
\<close>

definition StdFace_Face ::
    "('img, 'f::zero) helpers \<Rightarrow> nat \<Rightarrow> 'img StdFace \<Rightarrow> ('img, 'f, nat \<Rightarrow> 'img StdFace) Face" where
  "StdFace_Face h p s =
     \<lparr>Metrics = StdFace_Metrics h p s,
      advance = (\<lambda>t. fixed26_6ToFloat64 h (MeasureString h (stdf s) t)),
      hasGlyph = (\<lambda>r. snd (GlyphAdvance (stdf s) r)),
      appendGlyphsForLine =
        (\<lambda>store glyphs line indexOffset originX originY.
           case StdFace_appendGlyphsForLine h p (store p) glyphs line indexOffset originX originY of
             Inl e \<Rightarrow> Inl e
           | Inr (glyphs', s') \<Rightarrow> Inr (glyphs', store(p := s'))),
      direction = DirectionLeftToRight\<rparr>"

section \<open>Concrete faces\<close>

text \<open>
  A font with two glyphs: \<open>A\<close> (U+0041), whose ink box is 8 by 9.5 pixels and starts
  an eighth of a pixel right of the origin, and the space (U+0020), which has an
  advance and an empty ink box. Images
  are described by the rune and the size they were drawn with, \<open>float64\<close> is \<open>real\<close>,
  and the horizontal grid of \<open>adjustGranularity\<close> is a quarter of a pixel.
\<close>

definition fontA :: fontFace where
  "fontA =
     \<lparr>Kern = (\<lambda>r0 r1. 0),
      GlyphBounds = (\<lambda>r.
        if r = 0x41 then
          (\<lparr>RMin = \<lparr>PX = 8, PY = - 608\<rparr>, RMax = \<lparr>PX = 520, PY = 0\<rparr>\<rparr>, 576, True)
        else if r = 0x20 then
          (\<lparr>RMin = \<lparr>PX = 0, PY = 0\<rparr>, RMax = \<lparr>PX = 0, PY = 0\<rparr>\<rparr>, 256, True)
        else (\<lparr>RMin = \<lparr>PX = 0, PY = 0\<rparr>, RMax = \<lparr>PX = 0, PY = 0\<rparr>\<rparr>, 0, False)),
      GlyphAdvance = (\<lambda>r.
        if r = 0x41 then (576, True) else if r = 0x20 then (256, True) else (0, False)),
      fontFaceMetrics = \<lparr>fmHeight = 768, fmAscent = 640, fmDescent = 128\<rparr>\<rparr>"

definition testHelpers :: "(rune \<times> int \<times> int, real) helpers" where
  "testHelpers =
     \<lparr>adjustGranularity = (\<lambda>x face. x AND NOT 15),
      fixed26_6ToFloat64 = (\<lambda>x. real_of_int (sint x) / 64),
      float64ToFixed26_6 = (\<lambda>x. word_of_int \<lfloor>x * 64\<rfloor>),
      float64OfInt = real_of_int,
      MeasureString = (\<lambda>face t.
        foldl (\<lambda>a q. a + fst (GlyphAdvance face (snd q))) 0 (rangeString 0 t)),
      drawGlyph = (\<lambda>face r w ht dot. (r, w, ht))\<rparr>"

text \<open>The face created at address 1, and the store that holds it.\<close>

definition stdA :: "(rune \<times> int \<times> int) StdFace" where
  "stdA = NewStdFace 1 fontA"

definition storeA :: "nat \<Rightarrow> (rune \<times> int \<times> int) StdFace" where
  "storeA = (\<lambda>p. stdA)"

definition faceA :: "(rune \<times> int \<times> int, real, nat \<Rightarrow> (rune \<times> int \<times> int) StdFace) Face" where
  "faceA = StdFace_Face testHelpers 1 stdA"

text \<open>Two faces that differ in which of them has the greater value, field by field.\<close>

definition tallFace :: "(unit, real, unit) Face" where
  "tallFace =
     \<lparr>Metrics = Inr \<lparr>Height = 12, HAscent = 10, HDescent = 2, Width = 0, VAscent = 0,
                      VDescent = 0\<rparr>,
      advance = (\<lambda>t. 0),
      hasGlyph = (\<lambda>r. True),
      appendGlyphsForLine = (\<lambda>store glyphs line indexOffset originX originY. Inr (glyphs, store)),
      direction = DirectionLeftToRight\<rparr>"

definition wideFace :: "(unit, real, unit) Face" where
  "wideFace =
     \<lparr>Metrics = Inr \<lparr>Height = 8, HAscent = 5, HDescent = 3, Width = 16, VAscent = 8,
                      VDescent = 8\<rparr>,
      advance = (\<lambda>t. 0),
      hasGlyph = (\<lambda>r. True),
      appendGlyphsForLine = (\<lambda>store glyphs line indexOffset originX originY. Inr (glyphs, store)),
      direction = DirectionTopToBottomAndRightToLeft\<rparr>"

section \<open>Properties of the decoder and of the range loop\<close>

lemma first_cases:
  "first b = as \<or> first b = xx \<or> first b = s1 \<or> first b = s2 \<or> first b = s3
     \<or> first b = s4 \<or> first b = s5 \<or> first b = s6 \<or> first b = s7"
  by (simp add: first_def)

lemma first_size:
  assumes "\<not> as \<le> first b"
  shows "unat (first b AND 7) = 2 \<or> unat (first b AND 7) = 3 \<or> unat (first b AND 7) = 4"
  using first_cases [of b] assms
  by (auto simp: as_def xx_def s1_def s2_def s3_def s4_def s5_def s6_def s7_def)

lemma DecodeRuneInString_size:
  assumes "s \<noteq> []"
  shows "1 \<le> snd (DecodeRuneInString s) \<and> snd (DecodeRuneInString s) \<le> length s"
proof -
  have n: "1 \<le> length s" using assms by (cases s) auto
  show ?thesis
  proof (cases "as \<le> first (s ! 0)")
    case True
    then show ?thesis using n assms by (simp add: DecodeRuneInString_def Let_def)
  next
    case False
    from first_size [OF False] show ?thesis
      using n assms False by (auto simp: DecodeRuneInString_def Let_def)
  qed
qed

lemma DecodeRuneInString_pos: "s \<noteq> [] \<Longrightarrow> 0 < snd (DecodeRuneInString s)"
  using DecodeRuneInString_size [of s] by simp

text \<open>The decoder on one to four bytes, and on invalid, short and surrogate encodings.\<close>

lemma DecodeRuneInString_examples:
  "DecodeRuneInString [0x41] = (0x41, 1)"
  "DecodeRuneInString [0xC3, 0xA9, 0x41] = (0xE9, 2)"
  "DecodeRuneInString [0xE3, 0x81, 0x93] = (0x3053, 3)"
  "DecodeRuneInString [0xF0, 0x9F, 0x98, 0x80] = (0x1F600, 4)"
  "DecodeRuneInString [0x80, 0x41] = (RuneError, 1)"
  "DecodeRuneInString [0xE3, 0x81] = (RuneError, 1)"
  "DecodeRuneInString [0xED, 0xA0, 0x80] = (RuneError, 1)"
  "DecodeRuneInString [] = (RuneError, 0)"
  by code_simp+

section \<open>Properties of splitText\<close>

lemma contiguous_snoc:
  "contiguous s (cs @ [c]) e \<longleftrightarrow>
     contiguous s cs (textStartIndex c) \<and> textStartIndex c < textEndIndex c \<and> textEndIndex c = e"
  by (induction cs arbitrary: s) auto

lemma contiguous_last:
  "cs \<noteq> [] \<Longrightarrow> contiguous s cs e \<Longrightarrow> textEndIndex (last cs) = e"
  by (induction cs arbitrary: s) auto

lemma contiguous_le: "contiguous s cs e \<Longrightarrow> s \<le> e"
  by (induction cs arbitrary: s) fastforce+

lemma contiguous_bounds:
  "contiguous s cs e \<Longrightarrow> c \<in> set cs \<Longrightarrow>
     s \<le> textStartIndex c \<and> textStartIndex c < textEndIndex c \<and> textEndIndex c \<le> e"
proof (induction cs arbitrary: s)
  case Nil
  then show ?case by simp
next
  case (Cons d ds)
  show ?case
  proof (cases "c = d")
    case True
    with Cons.prems contiguous_le [of "textEndIndex d" ds e] show ?thesis by simp
  next
    case False
    with Cons.prems have "c \<in> set ds" and "contiguous (textEndIndex d) ds e"
      and "s < textEndIndex d" by auto
    with Cons.IH [of "textEndIndex d"] show ?thesis by simp
  qed
qed

lemma contiguous_chunkBytes:
  "contiguous s cs e \<Longrightarrow> concat (map chunkBytes cs) = [s .. e - 1]"
proof (induction cs arbitrary: s)
  case Nil
  then show ?case by simp
next
  case (Cons c cs)
  then have st: "textStartIndex c = s" and lt: "s < textEndIndex c"
    and rest: "contiguous (textEndIndex c) cs e" by auto
  from rest have le: "textEndIndex c \<le> e" by (rule contiguous_le)
  have "[s .. e - 1] = [s .. textEndIndex c - 1] @ [textEndIndex c - 1 + 1 .. e - 1]"
    using lt le by (intro upto_split2) auto
  then show ?case using Cons.IH [OF rest] st by (simp add: chunkBytes_def)
qed

lemma update_last: "cs \<noteq> [] \<Longrightarrow> cs[length cs - Suc 0 := x] = butlast cs @ [x]"
  by (induction cs rule: rev_induct) (auto simp: list_update_append)

lemma contiguous_extend_last:
  assumes "cs \<noteq> []" "contiguous s cs e" "0 < l"
  shows "contiguous s (butlast cs @ [(last cs)\<lparr>textEndIndex := textEndIndex (last cs) + l\<rparr>]) (e + l)"
proof -
  from assms(1) obtain bs c where cs: "cs = bs @ [c]" by (metis rev_exhaust)
  with assms show ?thesis by (simp add: contiguous_snoc)
qed

lemma distinctAdjacent_snoc:
  "distinctAdjacent (cs @ [c]) \<longleftrightarrow>
     distinctAdjacent cs \<and> (cs = [] \<or> faceIndex (last cs) \<noteq> faceIndex c)"
  by (induction cs rule: distinctAdjacent.induct) auto

lemma distinctAdjacent_extend_last:
  assumes "cs \<noteq> []" "distinctAdjacent cs"
  shows "distinctAdjacent (butlast cs @ [(last cs)\<lparr>textEndIndex := e\<rparr>])"
proof -
  from assms(1) obtain bs c where cs: "cs = bs @ [c]" by (metis rev_exhaust)
  with assms show ?thesis by (auto simp: distinctAdjacent_snoc)
qed

lemma splitText_step_extend:
  assumes "chunks \<noteq> []" "faceIndex (last chunks) = firstFace 0 m (snd q)"
  shows "splitText_step m text chunks q =
           butlast chunks @
             [(last chunks)\<lparr>textEndIndex := textEndIndex (last chunks)
                + int (snd (DecodeRuneInString (drop (nat (fst q)) text)))\<rparr>]"
  using assms by (simp add: splitText_step_def Let_def update_last)

lemma splitText_step_open:
  assumes "chunks = [] \<or> faceIndex (last chunks) \<noteq> firstFace 0 m (snd q)"
  shows "splitText_step m text chunks q =
           chunks @
             [\<lparr>textStartIndex = (if chunks \<noteq> [] then textEndIndex (last chunks) else 0),
               textEndIndex = (if chunks \<noteq> [] then textEndIndex (last chunks) else 0)
                 + int (snd (DecodeRuneInString (drop (nat (fst q)) text))),
               faceIndex = firstFace 0 m (snd q)\<rparr>]"
  using assms by (auto simp: splitText_step_def Let_def)

lemma splitText_step_contiguous:
  assumes "contiguous 0 chunks i" "drop (nat i) text \<noteq> []"
  shows "contiguous 0 (splitText_step m text chunks (i, r))
           (i + int (snd (DecodeRuneInString (drop (nat i) text))))"
proof -
  let ?l = "int (snd (DecodeRuneInString (drop (nat i) text)))"
  have l: "0 < ?l" using DecodeRuneInString_pos [OF assms(2)] by simp
  show ?thesis
  proof (cases "chunks \<noteq> [] \<and> faceIndex (last chunks) = firstFace 0 m r")
    case True
    then show ?thesis
      using contiguous_extend_last [OF _ assms(1) l] splitText_step_extend [of chunks m "(i, r)"]
      by simp
  next
    case False
    then have op: "chunks = [] \<or> faceIndex (last chunks) \<noteq> firstFace 0 m (snd (i, r))" by auto
    show ?thesis
    proof (cases "chunks = []")
      case True
      with assms(1) l splitText_step_open [OF op, of "text"] show ?thesis by simp
    next
      case ne: False
      then have "textEndIndex (last chunks) = i" using assms(1) by (rule contiguous_last)
      with ne assms(1) l splitText_step_open [OF op, of "text"] show ?thesis
        by (simp add: contiguous_snoc)
    qed
  qed
qed

lemma splitText_step_distinctAdjacent:
  assumes "distinctAdjacent chunks"
  shows "distinctAdjacent (splitText_step m text chunks q)"
proof (cases "chunks \<noteq> [] \<and> faceIndex (last chunks) = firstFace 0 m (snd q)")
  case True
  then show ?thesis using assms distinctAdjacent_extend_last [of chunks]
    by (simp add: splitText_step_extend)
next
  case False
  then have op: "chunks = [] \<or> faceIndex (last chunks) \<noteq> firstFace 0 m (snd q)" by auto
  show ?thesis using assms op by (auto simp: splitText_step_open [OF op] distinctAdjacent_snoc)
qed

lemma foldl_splitText_contiguous:
  assumes "s = drop (nat i) text" "0 \<le> i" "i \<le> int (length text)" "contiguous 0 chunks i"
  shows "contiguous 0 (foldl (splitText_step m text) chunks (rangeString i s))
           (int (length text))"
  using assms
proof (induction i s arbitrary: chunks rule: rangeString.induct)
  case (1 i s)
  show ?case
  proof (cases "s = []")
    case True
    then have "int (length text) \<le> i" using "1.prems" by simp
    then show ?thesis using True "1.prems" by (simp add: rangeString.simps)
  next
    case False
    let ?n = "snd (DecodeRuneInString s)"
    have st: "contiguous 0 (splitText_step m text chunks (i, fst (DecodeRuneInString s)))
                (i + int ?n)"
      using splitText_step_contiguous [of chunks i "text" m] "1.prems" False by simp
    have dr: "drop ?n s = drop (nat (i + int ?n)) text"
      using "1.prems" by (simp add: nat_add_distrib add.commute)
    have le: "i + int ?n \<le> int (length text)"
      using DecodeRuneInString_size [OF False] "1.prems" by auto
    have "contiguous 0 (foldl (splitText_step m text)
            (splitText_step m text chunks (i, fst (DecodeRuneInString s)))
            (rangeString (i + int ?n) (drop ?n s))) (int (length text))"
      using "1.IH" [OF False dr _ le st] "1.prems" by simp
    then show ?thesis using False by (subst rangeString.simps) simp
  qed
qed

lemma foldl_splitText_distinctAdjacent:
  "distinctAdjacent chunks \<Longrightarrow> distinctAdjacent (foldl (splitText_step m text) chunks qs)"
  by (induction qs arbitrary: chunks) (simp_all add: splitText_step_distinctAdjacent)

lemma splitText_contiguous: "contiguous 0 (splitText m text) (int (length text))"
  unfolding splitText_def by (rule foldl_splitText_contiguous) simp_all

text \<open>
  C4 (chunk coverage). The chunks of \<open>splitText\<close> are contiguous from byte 0 to the
  length of the line, none of them is empty, and their byte indices, chunk after chunk,
  are exactly \<open>0, 1, \<dots>, len(line) - 1\<close>: every byte of the line lies in one chunk and
  in one only. Chunks with the face index \<open>-1\<close> are chunks like the others.
\<close>

theorem splitText_coverage:
  "contiguous 0 (splitText m text) (int (length text))
     \<and> concat (map chunkBytes (splitText m text)) = [0 .. int (length text) - 1]"
  using splitText_contiguous [of m "text"] contiguous_chunkBytes by blast

text \<open>
  C5 (chunk maximality). No two adjacent chunks of \<open>splitText\<close> carry the same face
  index, the index \<open>-1\<close> included: a rune whose face index is that of the last chunk
  extends the last chunk, and the number of chunks stays the same.
\<close>

theorem splitText_maximal:
  "distinctAdjacent (splitText m text)
     \<and> (\<forall>chunks q. chunks \<noteq> [] \<and> faceIndex (last chunks) = firstFace 0 m (snd q) \<longrightarrow>
          splitText_step m text chunks q =
            butlast chunks @
              [(last chunks)\<lparr>textEndIndex := textEndIndex (last chunks)
                 + int (snd (DecodeRuneInString (drop (nat (fst q)) text)))\<rparr>])"
  by (simp add: splitText_def foldl_splitText_distinctAdjacent splitText_step_extend)

theorem splitText_maximal_witness:
  "splitText [faceA] [0x41, 0x42] =
     [\<lparr>textStartIndex = 0, textEndIndex = 1, faceIndex = 0\<rparr>,
      \<lparr>textStartIndex = 1, textEndIndex = 2, faceIndex = - 1\<rparr>]
   \<and> distinctAdjacent (splitText [faceA] [0x41, 0x42])
   \<and> splitText_step [faceA] [0x41, 0x41] [\<lparr>textStartIndex = 0, textEndIndex = 1, faceIndex = 0\<rparr>]
        (1, 0x41) = [\<lparr>textStartIndex = 0, textEndIndex = 2, faceIndex = 0\<rparr>]"
proof -
  have a: "splitText [faceA] [0x41, 0x42] =
     [\<lparr>textStartIndex = 0, textEndIndex = 1, faceIndex = 0\<rparr>,
      \<lparr>textStartIndex = 1, textEndIndex = 2, faceIndex = - 1\<rparr>]"
    by code_simp
  have b: "firstFace 0 [faceA] 0x41 = 0" by code_simp
  have c: "int (snd (DecodeRuneInString (drop (nat 1) [0x41, 0x41]))) = 1" by code_simp
  from splitText_maximal [of "[faceA]" "[0x41, 0x41]"]
  have "[\<lparr>textStartIndex = 0, textEndIndex = 1, faceIndex = 0\<rparr>] \<noteq> []
          \<and> faceIndex (last [\<lparr>textStartIndex = 0, textEndIndex = 1, faceIndex = 0\<rparr>])
              = firstFace 0 [faceA] (snd (1 :: int, 0x41 :: rune)) \<longrightarrow>
        splitText_step [faceA] [0x41, 0x41]
          [\<lparr>textStartIndex = 0, textEndIndex = 1, faceIndex = 0\<rparr>] (1, 0x41) =
        butlast [\<lparr>textStartIndex = 0, textEndIndex = 1, faceIndex = 0\<rparr>] @
          [(last [\<lparr>textStartIndex = 0, textEndIndex = 1, faceIndex = 0\<rparr>])
             \<lparr>textEndIndex := textEndIndex (last [\<lparr>textStartIndex = 0, textEndIndex = 1, faceIndex = 0\<rparr>])
                + int (snd (DecodeRuneInString (drop (nat (fst (1 :: int, 0x41 :: rune))) [0x41, 0x41])))\<rparr>]"
    by blast
  with b c
  have "splitText_step [faceA] [0x41, 0x41] [\<lparr>textStartIndex = 0, textEndIndex = 1, faceIndex = 0\<rparr>]
        (1, 0x41) = [\<lparr>textStartIndex = 0, textEndIndex = 2, faceIndex = 0\<rparr>]"
    by simp
  with a splitText_maximal [of "[faceA]" "[0x41, 0x42]"] show ?thesis by simp
qed

section \<open>Properties of MultiFace.advance\<close>

lemma firstFace_range:
  "firstFace i m r = - 1 \<or> (i \<le> firstFace i m r \<and> firstFace i m r < i + int (length m))"
proof (induction m arbitrary: i)
  case Nil
  then show ?case by simp
next
  case (Cons f fs)
  from Cons.IH [of "i + 1"] show ?case by auto
qed

lemma splitText_step_faceIndexOK:
  assumes "list_all (faceIndexOK m) chunks"
  shows "list_all (faceIndexOK m) (splitText_step m text chunks q)"
proof (cases "chunks \<noteq> [] \<and> faceIndex (last chunks) = firstFace 0 m (snd q)")
  case True
  then have ne: "chunks \<noteq> []" by simp
  then obtain bs c where cs: "chunks = bs @ [c]" by (metis rev_exhaust)
  with assms True show ?thesis
    by (simp add: splitText_step_extend faceIndexOK_def)
next
  case False
  then have op: "chunks = [] \<or> faceIndex (last chunks) \<noteq> firstFace 0 m (snd q)" by auto
  show ?thesis using assms firstFace_range [of 0 m "snd q"]
    by (simp add: splitText_step_open [OF op] faceIndexOK_def)
qed

lemma foldl_splitText_faceIndexOK:
  "list_all (faceIndexOK m) chunks \<Longrightarrow>
     list_all (faceIndexOK m) (foldl (splitText_step m text) chunks qs)"
  by (induction qs arbitrary: chunks) (simp_all add: splitText_step_faceIndexOK)

lemma splitText_faceIndexOK: "list_all (faceIndexOK m) (splitText m text)"
  unfolding splitText_def by (rule foldl_splitText_faceIndexOK) simp

lemma splitText_index:
  assumes "c \<in> set (splitText m text)" "faceIndex c \<noteq> - 1"
  shows "index m (faceIndex c) = Inr (m ! nat (faceIndex c))"
  using assms splitText_faceIndexOK [of m "text"]
  by (auto simp: list_all_iff faceIndexOK_def index_def)

lemma splitText_slice:
  assumes "c \<in> set (splitText m text)"
  shows "slice text (textStartIndex c) (textEndIndex c) = Inr (chunkText text c)"
  using contiguous_bounds [OF splitText_contiguous assms]
  by (simp add: slice_def chunkText_def)

lemma foldlE_advance_step:
  assumes "\<forall>c \<in> set cs. faceIndex c \<noteq> - 1 \<longrightarrow>
             index m (faceIndex c) = Inr (m ! nat (faceIndex c))"
      and "\<forall>c \<in> set cs. slice text (textStartIndex c) (textEndIndex c) = Inr (chunkText text c)"
  shows "foldlE (advance_step m text) a cs =
           Inr (foldl (+) a (map (chunkAdvance m text) (filter (\<lambda>c. faceIndex c \<noteq> - 1) cs)))"
  using assms
proof (induction cs arbitrary: a)
  case Nil
  then show ?case by simp
next
  case (Cons c cs)
  show ?case
  proof (cases "faceIndex c = - 1")
    case True
    then have "advance_step m text a c = Inr a" by (simp add: advance_step_def)
    with True Cons show ?thesis by simp
  next
    case False
    with Cons.prems have "advance_step m text a c = Inr (a + chunkAdvance m text c)"
      by (simp add: advance_step_def chunkAdvance_def)
    with False Cons show ?thesis by simp
  qed
qed

text \<open>
  C7 (advance additivity). \<open>MultiFace.advance\<close> returns, without a panic, the sum that
  starts at zero and adds, in chunk order, the advance that each chunk's face reports
  for the chunk's part of the text; the chunks with the face index \<open>-1\<close> are skipped
  and add nothing.
\<close>

theorem MultiFace_advance_sum: "MultiFace_advance m text = Inr (advanceSum m text)"
  unfolding MultiFace_advance_def advanceSum_def
  by (rule foldlE_advance_step) (simp_all add: splitText_index splitText_slice)

section \<open>Properties of MultiFace.Metrics\<close>

lemma Max_insert_max:
  fixes a :: "'a::linorder"
  assumes "finite S"
  shows "Max (insert (max a b) S) = Max (insert a (insert b S))"
proof (cases "S = {}")
  case True
  then show ?thesis by (simp add: max.commute)
next
  case False
  with assms show ?thesis by (simp add: max.assoc)
qed

lemma Metrics_step_max:
  fixes mt :: "('f::{linorder,zero}) Metrics"
  assumes "Metrics f = Inr mt1"
  shows "Metrics_step mt f =
           Inr \<lparr>Height = max (Height mt) (Height mt1), HAscent = max (HAscent mt) (HAscent mt1),
                HDescent = max (HDescent mt) (HDescent mt1), Width = max (Width mt) (Width mt1),
                VAscent = max (VAscent mt) (VAscent mt1),
                VDescent = max (VDescent mt) (VDescent mt1)\<rparr>"
proof -
  have H: "\<And>(x :: 'f Metrics) b. (if Height x < b then x\<lparr>Height := b\<rparr> else x) = x\<lparr>Height := max (Height x) b\<rparr>"
    by (auto simp: max_def)
  have HA: "\<And>(x :: 'f Metrics) b. (if HAscent x < b then x\<lparr>HAscent := b\<rparr> else x) = x\<lparr>HAscent := max (HAscent x) b\<rparr>"
    by (auto simp: max_def)
  have HD: "\<And>(x :: 'f Metrics) b. (if HDescent x < b then x\<lparr>HDescent := b\<rparr> else x) = x\<lparr>HDescent := max (HDescent x) b\<rparr>"
    by (auto simp: max_def)
  have W: "\<And>(x :: 'f Metrics) b. (if Width x < b then x\<lparr>Width := b\<rparr> else x) = x\<lparr>Width := max (Width x) b\<rparr>"
    by (auto simp: max_def)
  have VA: "\<And>(x :: 'f Metrics) b. (if VAscent x < b then x\<lparr>VAscent := b\<rparr> else x) = x\<lparr>VAscent := max (VAscent x) b\<rparr>"
    by (auto simp: max_def)
  have VD: "\<And>(x :: 'f Metrics) b. (if VDescent x < b then x\<lparr>VDescent := b\<rparr> else x) = x\<lparr>VDescent := max (VDescent x) b\<rparr>"
    by (auto simp: max_def)
  show ?thesis
    unfolding Metrics_step_def Let_def assms sum.case H HA HD W VA VD
    by (cases mt) simp
qed

lemma foldlE_Metrics_step:
  fixes mt :: "('f::{linorder,zero}) Metrics"
  assumes "map Metrics m = map Inr ms"
  shows "foldlE Metrics_step mt m =
           Inr \<lparr>Height = Max (insert (Height mt) (Height ` set ms)),
                HAscent = Max (insert (HAscent mt) (HAscent ` set ms)),
                HDescent = Max (insert (HDescent mt) (HDescent ` set ms)),
                Width = Max (insert (Width mt) (Width ` set ms)),
                VAscent = Max (insert (VAscent mt) (VAscent ` set ms)),
                VDescent = Max (insert (VDescent mt) (VDescent ` set ms))\<rparr>"
  using assms
proof (induction m arbitrary: mt ms)
  case Nil
  then show ?case by simp
next
  case (Cons f fs)
  then obtain mt1 ms' where ms: "ms = mt1 # ms'" and f: "Metrics f = Inr mt1"
    and fs: "map Metrics fs = map Inr ms'" by (cases ms) auto
  show ?case
    by (simp add: Metrics_step_max [OF f] Cons.IH [OF fs] ms Max_insert_max)
qed

text \<open>
  For any sources that return their metrics, each field of the result is the greatest
  value among zero and that field of the sources: the loop starts from the zero record.
\<close>

lemma MultiFace_Metrics_zero_max:
  fixes m :: "('img, 'f::{linorder,zero}, 's) MultiFace"
  shows "map Metrics m = map Inr ms \<Longrightarrow> MultiFace_Metrics m = Inr (maxMetrics ms)"
  by (simp add: MultiFace_Metrics_def foldlE_Metrics_step maxMetrics_def fieldMax_def
      zeroMetrics_def)

lemma Max_insert_zero:
  fixes S :: "('a::{linorder,zero}) set"
  assumes "finite S" "S \<noteq> {}" "\<forall>x \<in> S. 0 \<le> x"
  shows "Max (insert 0 S) = Max S"
proof -
  from assms have "0 \<le> Max S" by (meson Max_in)
  with assms show ?thesis by (simp add: max_def)
qed

lemma fieldMax_sourceMax:
  fixes ms :: "('f::{linorder,zero}) Metrics list"
  assumes "ms \<noteq> []" "\<forall>mt \<in> set ms. 0 \<le> fld mt"
  shows "fieldMax fld ms = sourceMax fld ms"
  using assms Max_insert_zero [of "fld ` set ms"]
  by (simp add: fieldMax_def sourceMax_def)

text \<open>
  C6 (metrics aggregation). For every non-empty list of sources that return metrics
  of the data model (no field below zero), \<open>MultiFace.Metrics\<close> returns, for each of the
  six fields on its own, the greatest value of that field over all the sources. For
  the empty list it returns the all-zero record, and \<open>MultiFace.direction\<close> is then
  left-to-right.
\<close>

theorem MultiFace_Metrics_sources_max:
  fixes m :: "('img, 'f::{linorder,zero}, 's) MultiFace"
  shows "(map Metrics m = map Inr ms \<and> ms \<noteq> [] \<and> list_all nonNegativeMetrics ms \<longrightarrow>
            MultiFace_Metrics m = Inr (maxSourceMetrics ms))
     \<and> MultiFace_Metrics ([] :: ('img, 'f, 's) MultiFace) = Inr zeroMetrics
     \<and> MultiFace_direction ([] :: ('img, 'f, 's) MultiFace) = DirectionLeftToRight"
proof -
  have "MultiFace_Metrics m = Inr (maxSourceMetrics ms)"
    if a: "map Metrics m = map Inr ms" and b: "ms \<noteq> []" and c: "list_all nonNegativeMetrics ms"
  proof -
    from c have nn: "\<forall>mt \<in> set ms. nonNegativeMetrics mt" by (simp add: list_all_iff)
    have "maxMetrics ms = maxSourceMetrics ms"
      unfolding maxMetrics_def maxSourceMetrics_def
      using nn by (simp add: fieldMax_sourceMax [OF b] nonNegativeMetrics_def)
    with MultiFace_Metrics_zero_max [OF a] show ?thesis by simp
  qed
  moreover have "MultiFace_Metrics ([] :: ('img, 'f, 's) MultiFace) = Inr zeroMetrics"
    by (simp add: MultiFace_Metrics_def)
  moreover have "MultiFace_direction ([] :: ('img, 'f, 's) MultiFace) = DirectionLeftToRight"
    by (simp add: MultiFace_direction_def)
  ultimately show ?thesis by blast
qed

theorem MultiFace_Metrics_sources_max_witness:
  "map Metrics [tallFace, wideFace] =
     map Inr [\<lparr>Height = 12, HAscent = 10, HDescent = 2, Width = 0, VAscent = 0, VDescent = 0\<rparr>,
              \<lparr>Height = 8, HAscent = 5, HDescent = 3, Width = 16, VAscent = 8, VDescent = 8\<rparr>]
   \<and> list_all nonNegativeMetrics
        [\<lparr>Height = 12 :: real, HAscent = 10, HDescent = 2, Width = 0, VAscent = 0, VDescent = 0\<rparr>,
         \<lparr>Height = 8, HAscent = 5, HDescent = 3, Width = 16, VAscent = 8, VDescent = 8\<rparr>]
   \<and> MultiFace_Metrics [tallFace, wideFace] =
       Inr \<lparr>Height = 12, HAscent = 10, HDescent = 3, Width = 16, VAscent = 8, VDescent = 8\<rparr>"
proof -
  let ?ms = "[\<lparr>Height = 12 :: real, HAscent = 10, HDescent = 2, Width = 0, VAscent = 0, VDescent = 0\<rparr>,
              \<lparr>Height = 8, HAscent = 5, HDescent = 3, Width = 16, VAscent = 8, VDescent = 8\<rparr>]"
  have a: "map Metrics [tallFace, wideFace] = map Inr ?ms"
    by (simp add: tallFace_def wideFace_def)
  have b: "list_all nonNegativeMetrics ?ms" by (simp add: nonNegativeMetrics_def)
  have c: "?ms \<noteq> []" by simp
  from MultiFace_Metrics_sources_max [where m = "[tallFace, wideFace]" and ms = ?ms] a b c
  have "MultiFace_Metrics [tallFace, wideFace] = Inr (maxSourceMetrics ?ms)" by blast
  then have "MultiFace_Metrics [tallFace, wideFace] =
       Inr \<lparr>Height = 12, HAscent = 10, HDescent = 3, Width = 16, VAscent = 8, VDescent = 8\<rparr>"
    by (simp add: maxSourceMetrics_def sourceMax_def)
  with a b show ?thesis by blast
qed

section \<open>Properties of StdFace\<close>

text \<open>\<open>Floor\<close> and \<open>Ceil\<close> round a number of 64ths down and up to whole units.\<close>

lemma Floor_div: "Floor x = sint x div 64"
  by (simp add: Floor_def sint_signed_drop_bit_eq drop_bit_eq_div)

lemma Ceil_div: "Ceil x = sint (x + 63) div 64"
  by (simp add: Ceil_def sint_signed_drop_bit_eq drop_bit_eq_div)

text \<open>
  C10. \<open>StdFace.appendVectorPathForLine\<close> returns without a panic and leaves the path as
  it was given, for every face (a copied one too), line and origin.
\<close>

theorem StdFace_appendVectorPathForLine_unchanged:
  "StdFace_appendVectorPathForLine p s path line originX originY = Inr path"
  by (simp add: StdFace_appendVectorPathForLine_def)




text \<open>
  C2 (draw coordinates), as amended. \<open>glyphImage\<close> computes the draw coordinates as the
  floor of the quantized origin plus the minimum of the ink bounds, in each axis: the
  x coordinate after \<open>adjustGranularity\<close>, the y coordinate with its fractional bits
  cleared. It is the same quantized origin that gives the cache key, and after the call
  the cache has an entry under that key.
\<close>

theorem glyphImage_coordinates:
  "giImgX (glyphImage h p s r origin)
     = Floor (PX (quantize h s origin) + PX (RMin (fst (GlyphBounds (stdf s) r))))
   \<and> giImgY (glyphImage h p s r origin)
     = Floor (PY (quantize h s origin) + PY (RMin (fst (GlyphBounds (stdf s) r))))
   \<and> PX (quantize h s origin) = adjustGranularity h (PX origin) (stdf s)
   \<and> PY (quantize h s origin) = PY origin AND NOT 63
   \<and> glyphImageCache (giFace (glyphImage h p s r origin)) (cacheKey h s r origin) \<noteq> None"
  by (simp add: glyphImage_def Let_def quantize_def cacheKey_def getOrCreate_def
      split: option.split)

text \<open>
  The claim as stated fails: for the origin (60/64, 32/64) the glyph \<open>A\<close> of \<open>fontA\<close>,
  whose ink bounds start at (8/64, -608/64), is placed at (0, -10), while the floor of
  the origin as given plus the minimum of the ink bounds is (1, -9).
\<close>

theorem glyphImage_coordinates_counterexample:
  "giImgX (glyphImage testHelpers 1 stdA 0x41 \<lparr>PX = 60, PY = 32\<rparr>) = 0
   \<and> giImgY (glyphImage testHelpers 1 stdA 0x41 \<lparr>PX = 60, PY = 32\<rparr>) = - 10
   \<and> Floor (60 + PX (RMin (fst (GlyphBounds (stdf stdA) 0x41)))) = 1
   \<and> Floor (32 + PY (RMin (fst (GlyphBounds (stdf stdA) 0x41)))) = - 9"
  by (simp add: glyphImage_def Let_def quantize_def stdA_def NewStdFace_def fontA_def
      testHelpers_def Floor_def)

section \<open>Properties of the glyph loop of StdFace\<close>

lemma Ceil_zero: "Ceil 0 = 0"
  by (simp add: Ceil_def)

lemma glyphImageImpl_emptyInk:
  assumes "emptyInk (stdf s) r"
  shows "glyphImageImpl h s r off (fst (GlyphBounds (stdf s) r)) = None"
  using assms by (auto simp: glyphImageImpl_def emptyInk_def Let_def Ceil_zero)

lemma glyphImage_stdf: "stdf (giFace (glyphImage h p s r origin)) = stdf s"
  by (simp add: glyphImage_def Let_def)

lemma glyphImage_no_ink:
  assumes "noInkCached s" "emptyInk (stdf s) r"
  shows "giImg (glyphImage h p s r origin) = None
     \<and> glyphImageCache (giFace (glyphImage h p s r origin)) (cacheKey h s r origin) = Some None"
proof (cases "glyphImageCache s (cacheKey h s r origin)")
  case None
  then show ?thesis using glyphImageImpl_emptyInk [OF assms(2)]
    by (simp add: glyphImage_def Let_def getOrCreate_def cacheKey_def quantize_def)
next
  case (Some img)
  with assms have "img = None" unfolding noInkCached_def
    by (metis cacheKey_def stdFaceGlyphImageCacheKey.select_convs(1))
  with Some show ?thesis
    by (simp add: glyphImage_def Let_def getOrCreate_def cacheKey_def quantize_def)
qed

lemma glyphImage_noInkCached:
  assumes "noInkCached s"
  shows "noInkCached (giFace (glyphImage h p s r origin))"
proof (cases "glyphImageCache s (cacheKey h s r origin)")
  case None
  then have c: "glyphImageCache (giFace (glyphImage h p s r origin))
      = (glyphImageCache s)(cacheKey h s r origin \<mapsto>
          glyphImageImpl h s r
            \<lparr>PX = xoffset (cacheKey h s r origin),
             PY = (PY (quantize h s origin) + PY (RMin (fst (GlyphBounds (stdf s) r)))) AND 63\<rparr>
            (fst (GlyphBounds (stdf s) r)))"
    by (simp add: glyphImage_def Let_def getOrCreate_def cacheKey_def quantize_def)
  show ?thesis unfolding noInkCached_def
  proof (intro allI impI)
    fix key img
    assume a: "glyphImageCache (giFace (glyphImage h p s r origin)) key = Some img \<and>
          emptyInk (stdf (giFace (glyphImage h p s r origin))) (keyRune key)"
    then have e: "emptyInk (stdf s) (keyRune key)" by (simp add: glyphImage_stdf)
    show "img = None"
    proof (cases "key = cacheKey h s r origin")
      case True
      then have "keyRune key = r" by (simp add: cacheKey_def)
      with e glyphImageImpl_emptyInk [of s r h] a c True show ?thesis by simp
    next
      case False
      with a c have "glyphImageCache s key = Some img" by simp
      with e assms show ?thesis unfolding noInkCached_def by blast
    qed
  qed
next
  case (Some img)
  then have "glyphImageCache (giFace (glyphImage h p s r origin)) = glyphImageCache s"
    by (simp add: glyphImage_def Let_def getOrCreate_def cacheKey_def quantize_def)
  with assms show ?thesis by (simp add: noInkCached_def glyphImage_stdf)
qed

lemma appendGlyph_step_unfold:
  "appendGlyph_step h p line indexOffset st (i, r) =
     (let g = glyphImage h p (lsFace st) r (kernedOrigin st r) in
      \<lparr>lsGlyphs =
         (if giImg g \<noteq> None then
            lsGlyphs st @
              [\<lparr>StartIndexInBytes = indexOffset + i,
                EndIndexInBytes = indexOffset + i
                  + int (snd (DecodeRuneInString (drop (nat i) line))),
                Image = giImg g,
                X = float64OfInt h (giImgX g),
                Y = float64OfInt h (giImgY g)\<rparr>]
          else lsGlyphs st),
       lsOrigin = (kernedOrigin st r)\<lparr>PX := PX (kernedOrigin st r) + giAdvance g\<rparr>,
       lsPrevR = r,
       lsFace = giFace g\<rparr>)"
  by (simp add: appendGlyph_step_def kernedOrigin_def Let_def)

lemma glyphImage_advance:
  "giAdvance (glyphImage h p s r origin) = fst (snd (GlyphBounds (stdf s) r))"
  by (simp add: glyphImage_def Let_def)

lemma appendGlyph_step_origin:
  "PX (lsOrigin (appendGlyph_step h p line indexOffset st (i, r)))
     = PX (kernedOrigin st r) + fst (snd (GlyphBounds (stdf (lsFace st)) r))"
  by (simp add: appendGlyph_step_unfold Let_def glyphImage_advance)

lemma appendGlyph_step_noInkCached:
  "noInkCached (lsFace st) \<Longrightarrow>
     noInkCached (lsFace (appendGlyph_step h p line indexOffset st q))"
  by (cases q) (simp add: appendGlyph_step_unfold Let_def glyphImage_noInkCached)

lemma foldl_appendGlyph_step_noInkCached:
  "noInkCached (lsFace st) \<Longrightarrow>
     noInkCached (lsFace (foldl (appendGlyph_step h p line indexOffset) st qs))"
  by (induction qs arbitrary: st) (simp_all add: appendGlyph_step_noInkCached)

lemma noInkCached_NewStdFace: "noInkCached (NewStdFace p face)"
  by (simp add: noInkCached_def NewStdFace_def)

lemma StdFace_appendGlyphsForLine_noInkCached:
  assumes "noInkCached s"
    and "StdFace_appendGlyphsForLine h p s glyphs line indexOffset originX originY = Inr (glyphs', s')"
  shows "noInkCached s'"
proof -
  from assms(2) have "s' = lsFace (foldl (appendGlyph_step h p line indexOffset)
           \<lparr>lsGlyphs = glyphs,
            lsOrigin = \<lparr>PX = float64ToFixed26_6 h originX, PY = float64ToFixed26_6 h originY\<rparr>,
            lsPrevR = - 1, lsFace = s\<rparr>
           (rangeString 0 line))"
    by (auto simp: StdFace_appendGlyphsForLine_def Let_def split: sum.splits)
  then show ?thesis using foldl_appendGlyph_step_noInkCached [of _ h p line indexOffset] assms(1)
    by simp
qed

text \<open>
  The body of the loop, run for a rune whose ink box has zero width or zero height, in
  a face whose cache holds no ink for such runes: it appends no glyph and leaves the
  entry \<open>nil\<close> in the cache under the rune's key. For every rune, with ink or without,
  the x origin after the body is the x origin after kerning plus the advance that the
  font reports for the rune.
\<close>

lemma appendGlyph_step_empty_ink:
  "(noInkCached (lsFace st) \<and> emptyInk (stdf (lsFace st)) r \<longrightarrow>
      lsGlyphs (appendGlyph_step h p line indexOffset st (i, r)) = lsGlyphs st
    \<and> glyphImageCache (lsFace (appendGlyph_step h p line indexOffset st (i, r)))
        (cacheKey h (lsFace st) r (kernedOrigin st r)) = Some None
    \<and> noInkCached (lsFace (appendGlyph_step h p line indexOffset st (i, r))))
   \<and> PX (lsOrigin (appendGlyph_step h p line indexOffset st (i, r2)))
       = PX (kernedOrigin st r2) + fst (snd (GlyphBounds (stdf (lsFace st)) r2))
   \<and> lsPrevR (appendGlyph_step h p line indexOffset st (i, r2)) = r2"
proof -
  have "lsGlyphs (appendGlyph_step h p line indexOffset st (i, r)) = lsGlyphs st
    \<and> glyphImageCache (lsFace (appendGlyph_step h p line indexOffset st (i, r)))
        (cacheKey h (lsFace st) r (kernedOrigin st r)) = Some None
    \<and> noInkCached (lsFace (appendGlyph_step h p line indexOffset st (i, r)))"
    if a: "noInkCached (lsFace st)" and b: "emptyInk (stdf (lsFace st)) r"
    using glyphImage_no_ink [OF a b, of h p "kernedOrigin st r"]
      appendGlyph_step_noInkCached [OF a, of h p line indexOffset "(i, r)"]
    by (simp add: appendGlyph_step_unfold Let_def)
  then show ?thesis
    by (simp add: appendGlyph_step_origin) (simp add: appendGlyph_step_unfold Let_def)
qed

lemma appendGlyph_step_stdf:
  "stdf (lsFace (appendGlyph_step h p line indexOffset st q)) = stdf (lsFace st)"
  by (cases q) (simp add: appendGlyph_step_unfold Let_def glyphImage_stdf)

lemma appendGlyph_step_prevR:
  "lsPrevR (appendGlyph_step h p line indexOffset st q) = snd q"
  by (cases q) (simp add: appendGlyph_step_unfold Let_def)

lemma glyphImage_cache_keep:
  assumes "glyphImageCache s key = Some v"
  shows "glyphImageCache (giFace (glyphImage h p s r origin)) key = Some v"
  using assms
  by (auto simp: glyphImage_def Let_def getOrCreate_def split: option.splits)

lemma appendGlyph_step_cache_keep:
  assumes "glyphImageCache (lsFace st) key = Some v"
  shows "glyphImageCache (lsFace (appendGlyph_step h p line indexOffset st q)) key = Some v"
  using assms by (cases q) (simp add: appendGlyph_step_unfold Let_def glyphImage_cache_keep)

lemma foldl_appendGlyph_step_cache_keep:
  "glyphImageCache (lsFace st) key = Some v \<Longrightarrow>
     glyphImageCache (lsFace (foldl (appendGlyph_step h p line indexOffset) st qs)) key = Some v"
  by (induction qs arbitrary: st) (simp_all add: appendGlyph_step_cache_keep)

lemma foldl_appendGlyph_step_stdf:
  "stdf (lsFace (foldl (appendGlyph_step h p line indexOffset) st qs)) = stdf (lsFace st)"
  by (induction qs arbitrary: st) (simp_all add: appendGlyph_step_stdf)

lemma foldl_appendGlyph_step_records:
  assumes "noInkCached (lsFace st)" "q \<in> set qs" "emptyInk (stdf (lsFace st)) (snd q)"
  shows "\<exists>key. keyRune key = snd q
           \<and> glyphImageCache (lsFace (foldl (appendGlyph_step h p line indexOffset) st qs)) key
               = Some None"
  using assms
proof (induction qs arbitrary: st)
  case Nil
  then show ?case by simp
next
  case (Cons a qs)
  let ?st1 = "appendGlyph_step h p line indexOffset st a"
  have n1: "noInkCached (lsFace ?st1)"
    using Cons.prems(1) by (rule appendGlyph_step_noInkCached)
  show ?case
  proof (cases "q = a")
    case True
    obtain i r where a: "a = (i, r)" by (cases a)
    with True Cons.prems have e: "emptyInk (stdf (lsFace st)) r" by simp
    from appendGlyph_step_empty_ink [of st r h p line indexOffset i] Cons.prems(1) e
    have "glyphImageCache (lsFace ?st1) (cacheKey h (lsFace st) r (kernedOrigin st r)) = Some None"
      using a by simp
    then have "glyphImageCache (lsFace (foldl (appendGlyph_step h p line indexOffset) ?st1 qs))
        (cacheKey h (lsFace st) r (kernedOrigin st r)) = Some None"
      by (rule foldl_appendGlyph_step_cache_keep)
    moreover have "keyRune (cacheKey h (lsFace st) r (kernedOrigin st r)) = snd q"
      using True a by (simp add: cacheKey_def)
    ultimately show ?thesis by auto
  next
    case False
    with Cons.prems have "q \<in> set qs" by simp
    moreover have "emptyInk (stdf (lsFace ?st1)) (snd q)"
      using Cons.prems(3) by (simp add: appendGlyph_step_stdf)
    ultimately show ?thesis using Cons.IH [OF n1] by simp
  qed
qed

lemma appendGlyph_step_addr:
  "addr (lsFace (appendGlyph_step h p line indexOffset st q)) = addr (lsFace st)"
  by (cases q) (simp add: appendGlyph_step_unfold Let_def glyphImage_def)

lemma foldl_appendGlyph_step_addr:
  "addr (lsFace (foldl (appendGlyph_step h p line indexOffset) st qs)) = addr (lsFace st)"
  by (induction qs arbitrary: st) (simp_all add: appendGlyph_step_addr)

lemma rangeString_runeAt:
  assumes "q \<in> set (rangeString k s)" "s = drop (nat k) line" "0 \<le> k"
  shows "snd q = runeAt line (fst q)"
  using assms
proof (induction k s rule: rangeString.induct)
  case (1 i s)
  show ?case
  proof (cases "s = []")
    case True
    with "1.prems" show ?thesis by (simp add: rangeString.simps)
  next
    case False
    let ?n = "snd (DecodeRuneInString s)"
    from "1.prems"(1) False
    have "q = (i, fst (DecodeRuneInString s)) \<or> q \<in> set (rangeString (i + int ?n) (drop ?n s))"
      by (subst (asm) rangeString.simps) auto
    then show ?thesis
    proof
      assume "q = (i, fst (DecodeRuneInString s))"
      with "1.prems" show ?thesis by (simp add: runeAt_def)
    next
      assume m: "q \<in> set (rangeString (i + int ?n) (drop ?n s))"
      have dr: "drop ?n s = drop (nat (i + int ?n)) line"
        using "1.prems" by (simp add: nat_add_distrib add.commute)
      from "1.IH" [OF False m dr] "1.prems" show ?thesis by simp
    qed
  qed
qed

lemma appendGlyph_step_glyphs:
  assumes "noInkCached (lsFace st)" "r = runeAt line i"
  shows "lsGlyphs (appendGlyph_step h p line indexOffset st (i, r)) = lsGlyphs st
     \<or> (\<exists>g. lsGlyphs (appendGlyph_step h p line indexOffset st (i, r)) = lsGlyphs st @ [g]
           \<and> glyphAt h (stdf (lsFace st)) line indexOffset g i (PX (kernedOrigin st r)))"
proof (cases "giImg (glyphImage h p (lsFace st) r (kernedOrigin st r)) = None")
  case True
  then show ?thesis by (simp add: appendGlyph_step_unfold Let_def)
next
  case False
  with glyphImage_no_ink [OF assms(1), of r h p "kernedOrigin st r"]
  have ne: "\<not> emptyInk (stdf (lsFace st)) r" by blast
  have x: "giImgX (glyphImage h p (lsFace st) r (kernedOrigin st r))
      = Floor (adjustGranularity h (PX (kernedOrigin st r)) (stdf (lsFace st))
          + PX (RMin (fst (GlyphBounds (stdf (lsFace st)) r))))"
    by (simp add: glyphImage_def Let_def quantize_def)
  show ?thesis using False ne assms(2) x
    by (simp add: appendGlyph_step_unfold Let_def glyphAt_def)
qed

lemma foldl_appendGlyph_step_placed:
  assumes "noInkCached (lsFace st)" "\<forall>q \<in> set qs. snd q = runeAt line (fst q)"
  shows "\<exists>added. lsGlyphs (foldl (appendGlyph_step h p line indexOffset) st qs)
             = lsGlyphs st @ added
           \<and> (\<forall>g \<in> set added.
                 \<exists>a \<in> set (penPositions (stdf (lsFace st)) (lsPrevR st) (PX (lsOrigin st)) qs).
                   glyphAt h (stdf (lsFace st)) line indexOffset g (fst a) (snd a))"
  using assms
proof (induction qs arbitrary: st)
  case Nil
  then show ?case by simp
next
  case (Cons q qs)
  obtain i r where q: "q = (i, r)" by (cases q)
  let ?st1 = "appendGlyph_step h p line indexOffset st q"
  let ?x = "PX (kernedOrigin st r)"
  have r: "r = runeAt line i" using Cons.prems(2) q by simp
  have n1: "noInkCached (lsFace ?st1)"
    using Cons.prems(1) by (rule appendGlyph_step_noInkCached)
  have f1: "stdf (lsFace ?st1) = stdf (lsFace st)" by (rule appendGlyph_step_stdf)
  have p1: "lsPrevR ?st1 = r" using q by (simp add: appendGlyph_step_prevR)
  have o1: "PX (lsOrigin ?st1) = ?x + fst (snd (GlyphBounds (stdf (lsFace st)) r))"
    using q by (simp add: appendGlyph_step_origin)
  have kx: "?x = (if 0 \<le>s lsPrevR st then PX (lsOrigin st) + Kern (stdf (lsFace st)) (lsPrevR st) r
                  else PX (lsOrigin st))"
    by (simp add: kernedOrigin_def)
  have pen: "penPositions (stdf (lsFace st)) (lsPrevR st) (PX (lsOrigin st)) (q # qs)
      = (i, ?x) # penPositions (stdf (lsFace ?st1)) (lsPrevR ?st1) (PX (lsOrigin ?st1)) qs"
    unfolding f1 p1 o1 using q kx by (simp add: Let_def)
  from Cons.IH [OF n1] Cons.prems(2)
  obtain added where a1: "lsGlyphs (foldl (appendGlyph_step h p line indexOffset) ?st1 qs)
        = lsGlyphs ?st1 @ added"
    and a2: "\<forall>g \<in> set added.
        \<exists>a \<in> set (penPositions (stdf (lsFace ?st1)) (lsPrevR ?st1) (PX (lsOrigin ?st1)) qs).
          glyphAt h (stdf (lsFace st)) line indexOffset g (fst a) (snd a)"
    unfolding f1 by auto
  from appendGlyph_step_glyphs [OF Cons.prems(1) r, of h p indexOffset]
  consider (none) "lsGlyphs ?st1 = lsGlyphs st"
    | (one) g where "lsGlyphs ?st1 = lsGlyphs st @ [g]"
        "glyphAt h (stdf (lsFace st)) line indexOffset g i ?x"
    using q by auto
  then show ?case
  proof cases
    case none
    with a1 a2 show ?thesis unfolding pen by (intro exI [of _ added]) auto
  next
    case one
    with a1 a2 show ?thesis unfolding pen by (intro exI [of _ "g # added"]) auto
  qed
qed

text \<open>
  C8 (runes without ink), for a whole call of \<open>StdFace.appendGlyphsForLine\<close> on a face
  at its own address whose cache holds no ink for the runes with an empty ink box (a
  new face, and any face after any number of calls). The call returns. For every rune
  of the line whose ink box has zero width or zero height, the returned face has the
  entry \<open>nil\<close> in its cache under a key of that rune, and no glyph is appended for it:
  every glyph appended is the glyph of a rune of the line that has ink. The x origin
  still advances over the runes without ink: every glyph appended has the x coordinate
  of the pen position of its rune, and the pen moves by the kerning and the reported
  advance of every rune before it, with ink or without.
\<close>

theorem StdFace_appendGlyphsForLine_empty_ink:
  "addr s = Some p \<and> noInkCached s \<longrightarrow>
     (\<exists>added s'.
        StdFace_appendGlyphsForLine h p s glyphs line indexOffset originX originY
          = Inr (glyphs @ added, s')
        \<and> list_all (placedGlyph h (stdf s) line indexOffset (float64ToFixed26_6 h originX)) added
        \<and> (\<forall>q \<in> set (rangeString 0 line). emptyInk (stdf s) (snd q) \<longrightarrow>
              (\<exists>key. keyRune key = snd q \<and> glyphImageCache s' key = Some None))
        \<and> noInkCached s' \<and> stdf s' = stdf s \<and> addr s' = addr s)"
proof (intro impI, elim conjE)
  assume ad: "addr s = Some p" and ni: "noInkCached s"
  let ?init = "\<lparr>lsGlyphs = glyphs,
      lsOrigin = \<lparr>PX = float64ToFixed26_6 h originX, PY = float64ToFixed26_6 h originY\<rparr>,
      lsPrevR = - 1, lsFace = s\<rparr> :: ('a, 'b) lineState"
  let ?fin = "foldl (appendGlyph_step h p line indexOffset) ?init (rangeString 0 line)"
  have res: "StdFace_appendGlyphsForLine h p s glyphs line indexOffset originX originY
      = Inr (lsGlyphs ?fin, lsFace ?fin)"
    using ad by (simp add: StdFace_appendGlyphsForLine_def copyCheck_def Let_def)
  have ni0: "noInkCached (lsFace ?init)" using ni by simp
  have ra: "\<forall>q \<in> set (rangeString 0 line). snd q = runeAt line (fst q)"
    using rangeString_runeAt [of _ 0 line line] by simp
  from foldl_appendGlyph_step_placed [OF ni0 ra, of h p indexOffset]
  obtain added where g: "lsGlyphs ?fin = glyphs @ added"
    and pl: "\<forall>g \<in> set added.
        \<exists>a \<in> set (penPositions (stdf s) (- 1) (float64ToFixed26_6 h originX) (rangeString 0 line)).
          glyphAt h (stdf s) line indexOffset g (fst a) (snd a)"
    by auto
  have "list_all (placedGlyph h (stdf s) line indexOffset (float64ToFixed26_6 h originX)) added"
    using pl by (simp add: list_all_iff placedGlyph_def list_ex_iff)
  moreover have "\<forall>q \<in> set (rangeString 0 line). emptyInk (stdf s) (snd q) \<longrightarrow>
      (\<exists>key. keyRune key = snd q \<and> glyphImageCache (lsFace ?fin) key = Some None)"
    using foldl_appendGlyph_step_records [OF ni0, of _ "rangeString 0 line" h p line indexOffset]
    by simp
  moreover have "noInkCached (lsFace ?fin)"
    using foldl_appendGlyph_step_noInkCached [of ?init h p line indexOffset "rangeString 0 line"] ni
    by simp
  moreover have "stdf (lsFace ?fin) = stdf s" by (simp add: foldl_appendGlyph_step_stdf)
  moreover have "addr (lsFace ?fin) = addr s" by (simp add: foldl_appendGlyph_step_addr)
  ultimately show "\<exists>added s'.
        StdFace_appendGlyphsForLine h p s glyphs line indexOffset originX originY
          = Inr (glyphs @ added, s')
        \<and> list_all (placedGlyph h (stdf s) line indexOffset (float64ToFixed26_6 h originX)) added
        \<and> (\<forall>q \<in> set (rangeString 0 line). emptyInk (stdf s) (snd q) \<longrightarrow>
              (\<exists>key. keyRune key = snd q \<and> glyphImageCache s' key = Some None))
        \<and> noInkCached s' \<and> stdf s' = stdf s \<and> addr s' = addr s"
    using res g by auto
qed

text \<open>
  On the line of a space and an \<open>A\<close>, from the new face \<open>stdA\<close> and the origin (0, 0):
  the space has no ink, gets no glyph and a \<open>nil\<close> entry in the cache, and the glyph of
  \<open>A\<close> stands 4 pixels to the right, after the advance of the space.
\<close>

theorem StdFace_appendGlyphsForLine_empty_ink_witness:
  "addr stdA = Some 1 \<and> noInkCached stdA
   \<and> (\<exists>added s'.
        StdFace_appendGlyphsForLine testHelpers 1 stdA [] [0x20, 0x41] 0 0 0 = Inr ([] @ added, s')
        \<and> list_all (placedGlyph testHelpers (stdf stdA) [0x20, 0x41] 0
                      (float64ToFixed26_6 testHelpers 0)) added
        \<and> (\<forall>q \<in> set (rangeString 0 [0x20, 0x41]). emptyInk (stdf stdA) (snd q) \<longrightarrow>
              (\<exists>key. keyRune key = snd q \<and> glyphImageCache s' key = Some None))
        \<and> noInkCached s' \<and> stdf s' = stdf stdA \<and> addr s' = addr stdA)
   \<and> emptyInk (stdf stdA) 0x20
   \<and> map_sum id fst (StdFace_appendGlyphsForLine testHelpers 1 stdA [] [0x20, 0x41] 0 0 0) =
       Inr [\<lparr>StartIndexInBytes = 1, EndIndexInBytes = 2, Image = Some (0x41, 9, 11),
             X = 4, Y = - 10\<rparr>]
   \<and> (case StdFace_appendGlyphsForLine testHelpers 1 stdA [] [0x20, 0x41] 0 0 0 of
         Inl e \<Rightarrow> False
       | Inr res \<Rightarrow> glyphImageCache (snd res) \<lparr>keyRune = 0x20, xoffset = 0\<rparr> = Some None)"
proof -
  have a: "addr stdA = Some 1" by (simp add: stdA_def NewStdFace_def)
  have b: "noInkCached stdA" by (simp add: stdA_def noInkCached_NewStdFace)
  have c: "emptyInk (stdf stdA) 0x20"
    by (simp add: stdA_def NewStdFace_def fontA_def emptyInk_def)
  have d: "map_sum id fst (StdFace_appendGlyphsForLine testHelpers 1 stdA [] [0x20, 0x41] 0 0 0) =
       Inr [\<lparr>StartIndexInBytes = 1, EndIndexInBytes = 2, Image = Some (0x41, 9, 11),
             X = 4, Y = - 10\<rparr>]"
    by code_simp
  have e: "(case StdFace_appendGlyphsForLine testHelpers 1 stdA [] [0x20, 0x41] 0 0 0 of
         Inl e \<Rightarrow> False
       | Inr res \<Rightarrow> glyphImageCache (snd res) \<lparr>keyRune = 0x20, xoffset = 0\<rparr> = Some None)"
    by code_simp
  from StdFace_appendGlyphsForLine_empty_ink [where s = stdA and p = 1 and h = testHelpers
      and glyphs = "[]" and line = "[0x20, 0x41]" and indexOffset = 0 and originX = 0
      and originY = 0] a b
  have "\<exists>added s'.
        StdFace_appendGlyphsForLine testHelpers 1 stdA [] [0x20, 0x41] 0 0 0 = Inr ([] @ added, s')
        \<and> list_all (placedGlyph testHelpers (stdf stdA) [0x20, 0x41] 0
                      (float64ToFixed26_6 testHelpers 0)) added
        \<and> (\<forall>q \<in> set (rangeString 0 [0x20, 0x41]). emptyInk (stdf stdA) (snd q) \<longrightarrow>
              (\<exists>key. keyRune key = snd q \<and> glyphImageCache s' key = Some None))
        \<and> noInkCached s' \<and> stdf s' = stdf stdA \<and> addr s' = addr stdA"
    by blast
  with a b c d e show ?thesis by blast
qed

section \<open>Byte ranges of the glyphs\<close>

lemma rangeString_member:
  assumes "q \<in> set (rangeString k s)" "s = drop (nat k) line" "0 \<le> k"
  shows "k \<le> fst q \<and> fst q < int (length line)
     \<and> fst q + int (snd (DecodeRuneInString (drop (nat (fst q)) line))) \<le> int (length line)
     \<and> 0 < snd (DecodeRuneInString (drop (nat (fst q)) line))"
  using assms
proof (induction k s rule: rangeString.induct)
  case (1 i s)
  show ?case
  proof (cases "s = []")
    case True
    with "1.prems" show ?thesis by (simp add: rangeString.simps)
  next
    case False
    let ?n = "snd (DecodeRuneInString s)"
    have sz: "1 \<le> ?n \<and> ?n \<le> length s" by (rule DecodeRuneInString_size [OF False])
    have len: "length s = length line - nat i" using "1.prems" by simp
    from "1.prems"(1) False
    have "q = (i, fst (DecodeRuneInString s)) \<or> q \<in> set (rangeString (i + int ?n) (drop ?n s))"
      by (subst (asm) rangeString.simps) auto
    then show ?thesis
    proof
      assume "q = (i, fst (DecodeRuneInString s))"
      with sz len "1.prems" False show ?thesis by auto
    next
      assume m: "q \<in> set (rangeString (i + int ?n) (drop ?n s))"
      have dr: "drop ?n s = drop (nat (i + int ?n)) line"
        using "1.prems" by (simp add: nat_add_distrib add.commute)
      from "1.IH" [OF False m dr] "1.prems" sz show ?thesis by auto
    qed
  qed
qed

lemma runeRange_bounds:
  assumes "runeRange line a b"
  shows "0 \<le> a \<and> a < b \<and> b \<le> int (length line)"
proof -
  from assms obtain q where q: "q \<in> set (rangeString 0 line)" and a: "a = fst q"
    and b: "b = fst q + int (snd (DecodeRuneInString (drop (nat (fst q)) line)))"
    by (auto simp: runeRange_def list_ex_iff)
  from rangeString_member [OF q, of line] a b show ?thesis by simp
qed

lemma newGlyphsOK_refl: "newGlyphsOK line indexOffset gs gs"
  by (simp add: newGlyphsOK_def)

lemma newGlyphsOK_trans:
  "newGlyphsOK line indexOffset a b \<Longrightarrow> newGlyphsOK line indexOffset b c \<Longrightarrow>
     newGlyphsOK line indexOffset a c"
  by (fastforce simp: newGlyphsOK_def)

lemma appendGlyph_step_newGlyphsOK:
  assumes "q \<in> set (rangeString 0 line)"
  shows "newGlyphsOK line indexOffset (lsGlyphs st)
           (lsGlyphs (appendGlyph_step h p line indexOffset st q))"
proof -
  obtain i r where q: "q = (i, r)" by (cases q)
  have rr: "runeRange line i (i + int (snd (DecodeRuneInString (drop (nat i) line))))"
    using assms q by (force simp: runeRange_def list_ex_iff)
  show ?thesis
    unfolding q newGlyphsOK_def using rr
    by (simp add: appendGlyph_step_unfold Let_def)
qed

lemma foldl_appendGlyph_step_newGlyphsOK:
  assumes "set qs \<subseteq> set (rangeString 0 line)"
  shows "newGlyphsOK line indexOffset (lsGlyphs st)
           (lsGlyphs (foldl (appendGlyph_step h p line indexOffset) st qs))"
  using assms
proof (induction qs arbitrary: st)
  case Nil
  then show ?case by (simp add: newGlyphsOK_refl)
next
  case (Cons q qs)
  then have a: "q \<in> set (rangeString 0 line)" and b: "set qs \<subseteq> set (rangeString 0 line)"
    by auto
  from newGlyphsOK_trans [OF appendGlyph_step_newGlyphsOK [OF a] Cons.IH [OF b]]
  show ?case by simp
qed

text \<open>
  A single \<open>StdFace\<close> keeps the byte ranges: every glyph that its \<open>appendGlyphsForLine\<close>
  appends has, after the index offset is subtracted, the byte range of one encoded
  rune of the line, inside \<open>[0, len(line))\<close>.
\<close>

lemma StdFace_appendGlyphsForLine_ranges:
  assumes "StdFace_appendGlyphsForLine h p s glyphs line indexOffset originX originY
             = Inr (glyphs', s')"
  shows "newGlyphsOK line indexOffset glyphs glyphs'"
proof -
  from assms have "glyphs' = lsGlyphs (foldl (appendGlyph_step h p line indexOffset)
           \<lparr>lsGlyphs = glyphs,
            lsOrigin = \<lparr>PX = float64ToFixed26_6 h originX, PY = float64ToFixed26_6 h originY\<rparr>,
            lsPrevR = - 1, lsFace = s\<rparr>
           (rangeString 0 line))"
    by (auto simp: StdFace_appendGlyphsForLine_def Let_def split: sum.splits)
  then show ?thesis
    using foldl_appendGlyph_step_newGlyphsOK [of "rangeString 0 line" line indexOffset
        "\<lparr>lsGlyphs = glyphs,
          lsOrigin = \<lparr>PX = float64ToFixed26_6 h originX, PY = float64ToFixed26_6 h originY\<rparr>,
          lsPrevR = - 1, lsFace = s\<rparr>" h p]
    by simp
qed

section \<open>MultiFace.appendGlyphsForLine after a chunk without a face\<close>

text \<open>
  C1 (byte ranges of the glyphs), on the line of the two runes U+00E9 and \<open>A\<close>, whose
  bytes are C3 A9 41, with the one face \<open>faceA\<close>, which has no glyph for U+00E9. The rune \<open>A\<close> starts at byte 2 and
  \<open>splitText\<close> gives the chunks [0, 2) without a face and [2, 3) of face 0, but the glyph
  of \<open>A\<close> comes back with the byte range [0, 1), the first byte of the other rune and
  not the range of a rune of the line: the loop skips a chunk without a face before it
  has added the chunk's length to the index offset.
\<close>

theorem MultiFace_appendGlyphsForLine_after_sentinel:
  "rangeString 0 [0xC3, 0xA9, 0x41] = [(0, 0xE9), (2, 0x41)]
   \<and> splitText [faceA] [0xC3, 0xA9, 0x41] =
       [\<lparr>textStartIndex = 0, textEndIndex = 2, faceIndex = - 1\<rparr>,
        \<lparr>textStartIndex = 2, textEndIndex = 3, faceIndex = 0\<rparr>]
   \<and> map_sum id fst (MultiFace_appendGlyphsForLine [faceA] storeA [] [0xC3, 0xA9, 0x41] 0 0 0) =
       Inr [\<lparr>StartIndexInBytes = 0, EndIndexInBytes = 1, Image = Some (0x41, 9, 11),
             X = 0, Y = - 10\<rparr>]
   \<and> \<not> runeRange [0xC3, 0xA9, 0x41] (0 - 0) (1 - 0)
   \<and> runeRange [0xC3, 0xA9, 0x41] 2 3"
  by code_simp


end
